theory Spec2Isabelle
  imports Main "HOL-Library.Sublist" "HOL-Library.Product_Lexorder"
begin

section \<open>The vulnerability match store (sentinel/internal/store/matches.go)\<close>

text \<open>
  The file under verification is the Go source \<^verbatim>\<open>matches.go\<close> of the sentinel store:
  the version-constraint evaluator \<^verbatim>\<open>versionMatchesConstraints\<close>, the batch scan
  \<^verbatim>\<open>ScanMatches\<close> with its three SQL statements, and the read path
  \<^verbatim>\<open>GetVulnerabilityMatches\<close> / \<^verbatim>\<open>scanVulnerabilityMatchesAndCount\<close> /
  \<^verbatim>\<open>flattenMatches\<close>. Go's \<^verbatim>\<open>int\<close> is modelled as \<^typ>\<open>int\<close>: no arithmetic
  is done on the identifiers, so overflow plays no role. A nil slice and an empty slice
  are both the empty list.
\<close>

subsection \<open>Errors\<close>

datatype error = QueryError | ScanError

subsection \<open>Go's \<^verbatim>\<open>strings.Join\<close> and \<^verbatim>\<open>strings.Split\<close> with a one-character separator\<close>

fun join_comma :: "string list \<Rightarrow> string" where
  "join_comma [] = []"
| "join_comma [x] = x"
| "join_comma (x # y # ys) = x @ CHR '','' # join_comma (y # ys)"

fun split_sep :: "char \<Rightarrow> string \<Rightarrow> string list" where
  "split_sep sep [] = [[]]"
| "split_sep sep (c # cs) =
     (if c = sep then [] # split_sep sep cs
      else (case split_sep sep cs of
              [] \<Rightarrow> [[c]]
            | w # ws \<Rightarrow> (c # w) # ws))"

abbreviation split_comma :: "string \<Rightarrow> string list" where
  "split_comma \<equiv> split_sep (CHR '','')"

subsection \<open>The version library\<close>

text \<open>
  \<^verbatim>\<open>github.com/hashicorp/go-version\<close> is an external dependency; none of it is under
  \<^verbatim>\<open>src/\<close>. Its three entry points used by the store are taken as parameters: the
  version parser, the parser of one constraint (operator and version token), and the
  check of one parsed constraint against a parsed version.
\<close>

record ('v, 'c) version_library =
  NewVersion :: "string \<Rightarrow> 'v option"
  parseSingle :: "string \<Rightarrow> 'c option"
  check :: "'c \<Rightarrow> 'v \<Rightarrow> bool"

text \<open>
  Modelled from the spec: \<^verbatim>\<open>version.NewConstraint\<close> and \<^verbatim>\<open>Constraints.Check\<close> of
  the go-version library are missing from \<^verbatim>\<open>src/\<close>. The spec (4.1) has the constraints
  parsed "as a single comma-joined range expression (each element an operator + version
  token)", a malformed expression being a parse failure, and the version matching iff it
  "satisfies every constraint (logical AND)". So the expression is cut at the commas,
  every piece is parsed on its own, the first piece that fails makes the whole
  expression fail, and the check is the conjunction over the pieces.
\<close>

fun parse_all :: "(string \<Rightarrow> 'c option) \<Rightarrow> string list \<Rightarrow> 'c list option" where
  "parse_all p [] = Some []"
| "parse_all p (s # ss) =
     (case p s of
        None \<Rightarrow> None
      | Some c \<Rightarrow> (case parse_all p ss of None \<Rightarrow> None | Some cs \<Rightarrow> Some (c # cs)))"

definition NewConstraint :: "('v, 'c) version_library \<Rightarrow> string \<Rightarrow> 'c list option" where
  "NewConstraint L s = parse_all (parseSingle L) (split_comma s)"

definition Check :: "('v, 'c) version_library \<Rightarrow> 'c list \<Rightarrow> 'v \<Rightarrow> bool" where
  "Check L cs v = list_all (\<lambda>c. check L c v) cs"

subsection \<open>\<^verbatim>\<open>versionMatchesConstraints\<close>\<close>

text \<open>The result pair is \<open>(matches, valid)\<close>, as in the Go signature.\<close>

definition versionMatchesConstraints ::
  "('v, 'c) version_library \<Rightarrow> string \<Rightarrow> string list \<Rightarrow> bool \<times> bool" where
  "versionMatchesConstraints L versionString constraints =
     (case NewVersion L versionString of
        None \<Rightarrow> (False, False)
      | Some v \<Rightarrow>
          (case NewConstraint L (join_comma constraints) of
             None \<Rightarrow> (False, False)
           | Some constraint \<Rightarrow> (Check L constraint v, True)))"

text \<open>
  What it means for a parsed version to satisfy one element of the constraint list: the
  element, handed to the library on its own, parses and its check holds.
\<close>

definition satisfies :: "('v, 'c) version_library \<Rightarrow> 'v \<Rightarrow> string \<Rightarrow> bool" where
  "satisfies L v c =
     (case NewConstraint L c of None \<Rightarrow> False | Some k \<Rightarrow> Check L k v)"

subsection \<open>The reconstructed objects (package \<^verbatim>\<open>shared\<close>)\<close>

text \<open>
  Modelled from the spec: the struct declarations of package \<^verbatim>\<open>shared\<close> are missing
  from \<^verbatim>\<open>src/\<close>. The fields are the ones \<^verbatim>\<open>matches.go\<close> reads and writes, with the
  types of the spec's data model (3): \<^verbatim>\<open>FixedIn\<close> is a \<^verbatim>\<open>*string\<close>, here an option.
\<close>

record AffectedSymbol =
  Path :: string
  Symbols :: "string list"

record AffectedPackage =
  PackageName :: string
  Language :: string
  Namespace :: string
  VersionConstraint :: "string list"
  Fixed :: bool
  FixedIn :: "string option"
  AffectedSymbols :: "AffectedSymbol list"

record VulnerabilityMatch =
  ID :: int
  UploadID :: int
  VulnerabilityID :: int
  AffectedPackage :: AffectedPackage

text \<open>Go's zero values of the two structs that the row scanner starts from.\<close>

definition zeroAffectedPackage :: AffectedPackage where
  "zeroAffectedPackage =
     \<lparr>PackageName = [], Language = [], Namespace = [], VersionConstraint = [],
      Fixed = False, FixedIn = None, AffectedSymbols = []\<rparr>"

subsection \<open>\<^verbatim>\<open>flattenMatches\<close>\<close>

text \<open>
  One iteration of the loop body. The index \<open>i = len(flattened) - 1\<close> is only used
  when \<open>flattened\<close> is not empty (the first disjunct of the test short-circuits).
\<close>

definition flattenStep :: "VulnerabilityMatch list \<Rightarrow> VulnerabilityMatch \<Rightarrow> VulnerabilityMatch list" where
  "flattenStep flattened m =
     (let i = length flattened - 1 in
      if length flattened = 0 \<or> ID (flattened ! i) \<noteq> ID m then flattened @ [m]
      else if PackageName (AffectedPackage (flattened ! i)) = [] then
        flattened[i := (flattened ! i)\<lparr>AffectedPackage := AffectedPackage m\<rparr>]
      else
        (let symbols = AffectedSymbols (AffectedPackage (flattened ! i));
             symbols = symbols @ AffectedSymbols (AffectedPackage m)
         in flattened[i := (flattened ! i)\<lparr>AffectedPackage :=
              (AffectedPackage (flattened ! i))\<lparr>AffectedSymbols := symbols\<rparr>\<rparr>]))"

definition flattenMatches :: "VulnerabilityMatch list \<Rightarrow> VulnerabilityMatch list" where
  "flattenMatches ms = foldl flattenStep [] ms"

subsection \<open>The physical rows of the read queries and their scanner\<close>

text \<open>
  One row of \<^verbatim>\<open>getVulnerabilityMatchesQuery\<close> (and of the by-id query), column by
  column in the order of the \<^verbatim>\<open>Scan\<close> call. The columns that come from the right-hand
  side of a left join are nullable. \<^verbatim>\<open>vap.vulnerability_id\<close> is one of them, but the
  code scans it into a plain \<^verbatim>\<open>int\<close>: Go's \<^verbatim>\<open>database/sql\<close> refuses NULL there, which
  is the error branch of the scanner below.
\<close>

record result_row =
  col_id :: int
  col_upload_id :: int
  col_vulnerability_id :: "int option"
  col_package_name :: "string option"
  col_language :: "string option"
  col_namespace :: "string option"
  col_version_constraint :: "string list option"
  col_fixed :: "bool option"
  col_fixed_in :: "string option"
  col_path :: "string option"
  col_symbols :: "string list option"
  col_count :: int

text \<open>
  Modelled from the spec: \<^verbatim>\<open>dbutil.NullString\<close> and \<^verbatim>\<open>dbutil.NullBool\<close> are repository
  code missing from \<^verbatim>\<open>src/\<close>. By the spec (4.3), "null/absent" fields of a left-join
  miss are "skipped, not merged": a NULL column leaves Go's zero value in the target, any
  other value is stored as it is. \<^verbatim>\<open>pq.Array\<close> of a pointer to a slice (from the
  external driver \<^verbatim>\<open>lib/pq\<close>) does the same for an array column.
\<close>

definition NullString :: "string option \<Rightarrow> string" where
  "NullString c = (case c of None \<Rightarrow> [] | Some s \<Rightarrow> s)"

definition NullBool :: "bool option \<Rightarrow> bool" where
  "NullBool c = (case c of None \<Rightarrow> False | Some b \<Rightarrow> b)"

definition pqArray :: "string list option \<Rightarrow> string list" where
  "pqArray c = (case c of None \<Rightarrow> [] | Some xs \<Rightarrow> xs)"

text \<open>
  The function literal handed to \<^verbatim>\<open>NewSliceWithCountScanner\<close>. The symbols column is
  scanned through \<^verbatim>\<open>pq.Array(vas.Symbols)\<close>: the slice is passed by value, not by
  address as in \<^verbatim>\<open>pq.Array(&vap.VersionConstraint)\<close>, so the driver fills a copy and
  \<^verbatim>\<open>vas.Symbols\<close> keeps its zero value whatever the column holds.
\<close>

definition scanMatchRow :: "result_row \<Rightarrow> error + (VulnerabilityMatch \<times> int)" where
  "scanMatchRow s =
     (case col_vulnerability_id s of
        None \<Rightarrow> Inl ScanError
      | Some vid \<Rightarrow>
          (let match = \<lparr>ID = col_id s, UploadID = col_upload_id s, VulnerabilityID = vid,
                        AffectedPackage = zeroAffectedPackage\<rparr>;
               vap = zeroAffectedPackage
                       \<lparr>PackageName := NullString (col_package_name s),
                        Language := NullString (col_language s),
                        Namespace := NullString (col_namespace s),
                        VersionConstraint := pqArray (col_version_constraint s),
                        Fixed := NullBool (col_fixed s)\<rparr>;
               fixedIn = NullString (col_fixed_in s);
               vas = \<lparr>Path = NullString (col_path s), Symbols = []\<rparr>;
               count = col_count s;
               vap = (if fixedIn \<noteq> [] then vap\<lparr>FixedIn := Some fixedIn\<rparr> else vap);
               vap = (if Path vas \<noteq> [] then vap\<lparr>AffectedSymbols := AffectedSymbols vap @ [vas]\<rparr>
                      else vap);
               match = (if PackageName vap \<noteq> [] then match\<lparr>AffectedPackage := vap\<rparr>
                        else match)
           in Inr (match, count)))"

text \<open>
  Modelled from the spec: \<^verbatim>\<open>basestore.NewSliceWithCountScanner\<close> is repository code
  missing from \<^verbatim>\<open>src/\<close>. By the spec (4.3, 7) a failure of the underlying query
  "propagates as a query error to the caller", the rows are walked in order, and the
  total count is a sidecar value carried on the rows: the scanner keeps the count of the
  row it read last, and 0 when there is no row. The first row that fails to scan ends
  the walk with its error.
\<close>

fun sliceWithCount ::
  "('r \<Rightarrow> error + ('a \<times> int)) \<Rightarrow> 'r list \<Rightarrow> 'a list \<Rightarrow> int \<Rightarrow> error + ('a list \<times> int)" where
  "sliceWithCount f [] values totalCount = Inr (values, totalCount)"
| "sliceWithCount f (r # rows) values totalCount =
     (case f r of
        Inl err \<Rightarrow> Inl err
      | Inr (value, count) \<Rightarrow> sliceWithCount f rows (values @ [value]) count)"

definition NewSliceWithCountScanner ::
  "('r \<Rightarrow> error + ('a \<times> int)) \<Rightarrow> 'r list \<times> error option \<Rightarrow> error + ('a list \<times> int)" where
  "NewSliceWithCountScanner f q =
     (case snd q of
        Some queryErr \<Rightarrow> Inl queryErr
      | None \<Rightarrow> sliceWithCount f (fst q) [] 0)"

definition scanVulnerabilityMatchesAndCount ::
  "result_row list \<times> error option \<Rightarrow> error + (VulnerabilityMatch list \<times> int)" where
  "scanVulnerabilityMatchesAndCount q =
     (case NewSliceWithCountScanner scanMatchRow q of
        Inl err \<Rightarrow> Inl err
      | Inr (matches, totalCount) \<Rightarrow> Inr (flattenMatches matches, totalCount))"

subsection \<open>The tables\<close>

text \<open>
  Modelled from the spec: the schema (the table declarations) is missing from \<^verbatim>\<open>src/\<close>.
  The columns are the ones the SQL of \<^verbatim>\<open>matches.go\<close> names; the spec's relational
  layout (6) gives their meaning, \<open>fixedIn\<close> as the one optional column, and the matches
  table as "unique on \<open>(uploadID, affectedPackageID)\<close>". Match ids are drawn from a
  sequence, as in any table with a serial key.
\<close>

record lsif_reference =
  r_dump_id :: int
  r_scheme :: string
  r_name :: string
  r_version :: string

record vulnerability_affected_package =
  vap_id :: int
  vap_vulnerability_id :: int
  vap_package_name :: string
  vap_language :: string
  vap_namespace :: string
  vap_version_constraint :: "string list"
  vap_fixed :: bool
  vap_fixed_in :: "string option"

record vulnerability_affected_symbol =
  vas_id :: int
  vas_vulnerability_affected_package_id :: int
  vas_path :: string
  vas_symbols :: "string list"

record vulnerability_match =
  m_id :: int
  m_upload_id :: int
  m_vulnerability_affected_package_id :: int

record database =
  lsif_references :: "lsif_reference list"
  vulnerability_affected_packages :: "vulnerability_affected_package list"
  vulnerability_affected_symbols :: "vulnerability_affected_symbol list"
  vulnerability_matches :: "vulnerability_match list"
  vulnerability_matches_id_seq :: int

subsection \<open>SQL's \<^verbatim>\<open>LIKE\<close>\<close>

text \<open>
  \<open>like_match s p\<close> is \<^verbatim>\<open>s LIKE p\<close>: in the pattern \<^verbatim>\<open>%\<close> stands for any run of
  characters, \<^verbatim>\<open>_\<close> for any one character, and a backslash makes the character after
  it literal. A pattern that ends in a lone backslash is an error in PostgreSQL; the
  patterns of \<^verbatim>\<open>scanMatchesQuery\<close> all end in \<^verbatim>\<open>%\<close>, so that case (here: no match)
  is never reached from them.
\<close>

fun like_match :: "string \<Rightarrow> string \<Rightarrow> bool" where
  "like_match s [] = (s = [])"
| "like_match s (p # ps) =
     (if p = CHR ''%'' then
        (like_match s ps \<or> (case s of [] \<Rightarrow> False | c # s' \<Rightarrow> like_match s' (p # ps)))
      else if p = CHR ''_'' then
        (case s of [] \<Rightarrow> False | c # s' \<Rightarrow> like_match s' ps)
      else if p = CHR 0x5C then
        (case ps of
           [] \<Rightarrow> False
         | q # qs \<Rightarrow> (case s of [] \<Rightarrow> False | c # s' \<Rightarrow> c = q \<and> like_match s' qs))
      else (case s of [] \<Rightarrow> False | c # s' \<Rightarrow> c = p \<and> like_match s' ps))"

subsection \<open>\<^verbatim>\<open>ScanMatches\<close>: candidate generation\<close>

text \<open>
  The Go map \<^verbatim>\<open>scipSchemeToVulnerabilityLanguage\<close>, its keys sorted, and the list of
  \<open>(scheme, language)\<close> conditions that \<^verbatim>\<open>sqlf.Join(mappings, " OR ")\<close> turns into the
  \<^verbatim>\<open>WHERE\<close> clause. The entries are listed in the order of their keys, which is the
  order \<^verbatim>\<open>sort.Strings\<close> gives.
\<close>

definition scipSchemeToVulnerabilityLanguage :: "(string \<times> string) list" where
  "scipSchemeToVulnerabilityLanguage = [(''gomod'', ''go''), (''npm'', ''Javascript'')]"

definition schemes :: "string list" where
  "schemes = map fst scipSchemeToVulnerabilityLanguage"

definition mappings :: "(string \<times> string) list" where
  "mappings =
     map (\<lambda>scheme. (scheme, the (map_of scipSchemeToVulnerabilityLanguage scheme))) schemes"

definition where_clause :: "lsif_reference \<Rightarrow> vulnerability_affected_package \<Rightarrow> bool" where
  "where_clause r vap =
     list_ex (\<lambda>(scheme, language). r_scheme r = scheme \<and> vap_language vap = language) mappings"

text \<open>One row of \<^verbatim>\<open>scanMatchesQuery\<close>: \<open>r.dump_id, vap.id, r.version, vap.version_constraint\<close>.\<close>

record candidate_row =
  c_dump_id :: int
  c_vap_id :: int
  c_version :: string
  c_version_constraint :: "string list"

definition join_condition :: "lsif_reference \<Rightarrow> vulnerability_affected_package \<Rightarrow> bool" where
  "join_condition r vap =
     like_match (r_name r) (CHR ''%'' # vap_package_name vap @ [CHR ''%''])"

definition scanMatchesQuery :: "database \<Rightarrow> candidate_row list" where
  "scanMatchesQuery db =
     concat (map (\<lambda>vap.
       map (\<lambda>r. \<lparr>c_dump_id = r_dump_id r, c_vap_id = vap_id vap, c_version = r_version r,
                 c_version_constraint = vap_version_constraint vap\<rparr>)
         (filter (\<lambda>r. join_condition r vap \<and> where_clause r vap) (lsif_references db)))
       (vulnerability_affected_packages db))"

subsection \<open>\<^verbatim>\<open>ScanMatches\<close>: filtering the candidates\<close>

text \<open>The store's own \<^verbatim>\<open>VulnerabilityMatch\<close> struct (the pair that is persisted).\<close>

record StoreVulnerabilityMatch =
  sm_UploadID :: int
  sm_VulnerabilityAffectedPackageID :: int

definition scanCandidateRow ::
  "('v, 'c) version_library \<Rightarrow> candidate_row \<Rightarrow> error + (StoreVulnerabilityMatch \<times> bool)" where
  "scanCandidateRow L s =
     (let m = \<lparr>sm_UploadID = c_dump_id s, sm_VulnerabilityAffectedPackageID = c_vap_id s\<rparr>;
          (matches, valid) = versionMatchesConstraints L (c_version s) (c_version_constraint s)
      in Inr (m, matches))"

text \<open>
  Modelled from the spec: \<^verbatim>\<open>basestore.NewFilteredSliceScanner\<close> is repository code
  missing from \<^verbatim>\<open>src/\<close>. By the spec (4.2 step 3, 7) each candidate is handed to the row
  function, only the rows it accepts are kept, in order, and a query failure or a row
  that fails to scan ends the scan with that error.
\<close>

fun filteredSlice ::
  "('r \<Rightarrow> error + ('a \<times> bool)) \<Rightarrow> 'r list \<Rightarrow> 'a list \<Rightarrow> error + 'a list" where
  "filteredSlice f [] values = Inr values"
| "filteredSlice f (r # rows) values =
     (case f r of
        Inl err \<Rightarrow> Inl err
      | Inr (value, ok) \<Rightarrow> filteredSlice f rows (if ok then values @ [value] else values))"

definition NewFilteredSliceScanner ::
  "('r \<Rightarrow> error + ('a \<times> bool)) \<Rightarrow> 'r list \<times> error option \<Rightarrow> error + 'a list" where
  "NewFilteredSliceScanner f q =
     (case snd q of
        Some queryErr \<Rightarrow> Inl queryErr
      | None \<Rightarrow> filteredSlice f (fst q) [])"

definition scanFilteredVulnerabilityMatches ::
  "('v, 'c) version_library \<Rightarrow> candidate_row list \<times> error option
     \<Rightarrow> error + StoreVulnerabilityMatch list" where
  "scanFilteredVulnerabilityMatches L = NewFilteredSliceScanner (scanCandidateRow L)"

subsection \<open>\<^verbatim>\<open>ScanMatches\<close>: persisting the matches\<close>

text \<open>
  \<^verbatim>\<open>scanMatchesUpdateQuery\<close>: \<^verbatim>\<open>INSERT ... SELECT ... ON CONFLICT DO NOTHING\<close> over the
  rows staged in the temporary table. Each staged row draws the next id from the
  sequence; a row that would break the uniqueness of \<open>(upload_id,
  vulnerability_affected_package_id)\<close>, against the rows already in the table or the
  ones inserted earlier by the same statement, is skipped, and every other row is added.
\<close>

definition conflicts :: "vulnerability_match list \<Rightarrow> int \<times> int \<Rightarrow> bool" where
  "conflicts tbl t =
     list_ex (\<lambda>m. m_upload_id m = fst t \<and> m_vulnerability_affected_package_id m = snd t) tbl"

fun insertOnConflictDoNothing ::
  "(int \<times> int) list \<Rightarrow> vulnerability_match list \<times> int \<Rightarrow> vulnerability_match list \<times> int" where
  "insertOnConflictDoNothing [] (tbl, seq) = (tbl, seq)"
| "insertOnConflictDoNothing (t # ts) (tbl, seq) =
     (let nextval = seq + 1 in
      if conflicts tbl t then insertOnConflictDoNothing ts (tbl, nextval)
      else insertOnConflictDoNothing ts
             (tbl @ [\<lparr>m_id = nextval, m_upload_id = fst t,
                      m_vulnerability_affected_package_id = snd t\<rparr>], nextval))"

definition scanMatchesUpdateQuery :: "(int \<times> int) list \<Rightarrow> database \<Rightarrow> database" where
  "scanMatchesUpdateQuery t_vulnerability_affected_packages db =
     (let (tbl, seq) = insertOnConflictDoNothing t_vulnerability_affected_packages
                         (vulnerability_matches db, vulnerability_matches_id_seq db)
      in db\<lparr>vulnerability_matches := tbl, vulnerability_matches_id_seq := seq\<rparr>)"

text \<open>
  \<^verbatim>\<open>ScanMatches\<close> itself. The calls into the store (opening and committing the
  transaction, creating and filling the temporary table) are taken to succeed: what
  remains is the candidate query, the filtered scan with its error return, the staging
  of one \<open>(UploadID, VulnerabilityAffectedPackageID)\<close> row per kept match, and the
  update statement. \<open>Inl\<close> is the returned error (the transaction is rolled back),
  \<open>Inr\<close> the database after the commit.
\<close>

definition ScanMatches :: "('v, 'c) version_library \<Rightarrow> database \<Rightarrow> error + database" where
  "ScanMatches L db =
     (case scanFilteredVulnerabilityMatches L (scanMatchesQuery db, None) of
        Inl err \<Rightarrow> Inl err
      | Inr matches \<Rightarrow>
          Inr (scanMatchesUpdateQuery
                 (map (\<lambda>match. (sm_UploadID match, sm_VulnerabilityAffectedPackageID match)) matches)
                 db))"

subsection \<open>\<^verbatim>\<open>GetVulnerabilityMatches\<close> and its query\<close>

text \<open>
  The common table expression \<^verbatim>\<open>limited_matches\<close>: the window aggregate
  \<^verbatim>\<open>COUNT(*) OVER()\<close> counts the rows of the whole matches table and is computed before
  \<^verbatim>\<open>ORDER BY id LIMIT ... OFFSET ...\<close> cuts the page. PostgreSQL rejects a negative
  limit or offset.
\<close>

definition limited_matches ::
  "database \<Rightarrow> int \<Rightarrow> int \<Rightarrow> error + (vulnerability_match \<times> int) list" where
  "limited_matches db limit offset =
     (if limit < 0 \<or> offset < 0 then Inl QueryError
      else Inr (take (nat limit) (drop (nat offset)
             (sort_key (\<lambda>m. m_id (fst m))
                (map (\<lambda>m. (m, int (length (vulnerability_matches db))))
                   (vulnerability_matches db))))))"

text \<open>The two left joins: a row with no partner is kept once, with NULLs on the right.\<close>

definition left_join_vap ::
  "database \<Rightarrow> vulnerability_match \<Rightarrow> vulnerability_affected_package option list" where
  "left_join_vap db m =
     (case filter (\<lambda>vap. vap_id vap = m_vulnerability_affected_package_id m)
             (vulnerability_affected_packages db) of
        [] \<Rightarrow> [None]
      | vaps \<Rightarrow> map Some vaps)"

definition left_join_vas ::
  "database \<Rightarrow> vulnerability_affected_package option \<Rightarrow> vulnerability_affected_symbol option list" where
  "left_join_vas db vapo =
     (case vapo of
        None \<Rightarrow> [None]
      | Some vap \<Rightarrow>
          (case filter (\<lambda>vas. vas_vulnerability_affected_package_id vas = vap_id vap)
                  (vulnerability_affected_symbols db) of
             [] \<Rightarrow> [None]
           | vass \<Rightarrow> map Some vass))"

type_synonym joined =
  "(vulnerability_match \<times> int) \<times> vulnerability_affected_package option
     \<times> vulnerability_affected_symbol option"

definition joined_rows :: "database \<Rightarrow> (vulnerability_match \<times> int) list \<Rightarrow> joined list" where
  "joined_rows db ms =
     concat (map (\<lambda>m.
       concat (map (\<lambda>vapo. map (\<lambda>vaso. (m, vapo, vaso)) (left_join_vas db vapo))
                 (left_join_vap db (fst m))))
       ms)"

text \<open>\<^verbatim>\<open>ORDER BY m.id, vap.id, vas.id\<close>, ascending, NULLs last.\<close>

definition nulls_last :: "int option \<Rightarrow> bool \<times> int" where
  "nulls_last c = (case c of None \<Rightarrow> (True, 0) | Some x \<Rightarrow> (False, x))"

definition order_key :: "joined \<Rightarrow> int \<times> (bool \<times> int) \<times> (bool \<times> int)" where
  "order_key j =
     (case j of (m, vapo, vaso) \<Rightarrow>
        (m_id (fst m), nulls_last (map_option vap_id vapo), nulls_last (map_option vas_id vaso)))"

definition select_row :: "joined \<Rightarrow> result_row" where
  "select_row j =
     (case j of (m, vapo, vaso) \<Rightarrow>
        \<lparr>col_id = m_id (fst m),
         col_upload_id = m_upload_id (fst m),
         col_vulnerability_id = map_option vap_vulnerability_id vapo,
         col_package_name = map_option vap_package_name vapo,
         col_language = map_option vap_language vapo,
         col_namespace = map_option vap_namespace vapo,
         col_version_constraint = map_option vap_version_constraint vapo,
         col_fixed = map_option vap_fixed vapo,
         col_fixed_in = Option.bind vapo vap_fixed_in,
         col_path = map_option vas_path vaso,
         col_symbols = map_option vas_symbols vaso,
         col_count = snd m\<rparr>)"

definition getVulnerabilityMatchesQuery ::
  "database \<Rightarrow> int \<Rightarrow> int \<Rightarrow> result_row list \<times> error option" where
  "getVulnerabilityMatchesQuery db limit offset =
     (case limited_matches db limit offset of
        Inl err \<Rightarrow> ([], Some err)
      | Inr ms \<Rightarrow> (map select_row (sort_key order_key (joined_rows db ms)), None))"

definition GetVulnerabilityMatches ::
  "database \<Rightarrow> int \<Rightarrow> int \<Rightarrow> error + (VulnerabilityMatch list \<times> int)" where
  "GetVulnerabilityMatches db limit offset =
     scanVulnerabilityMatchesAndCount (getVulnerabilityMatchesQuery db limit offset)"

subsection \<open>A sequence of scans\<close>

text \<open>
  Any number of \<^verbatim>\<open>ScanMatches\<close> invocations, one after the other. Between two scans
  the collaborators that own the references and the catalog may have replaced them:
  each invocation comes with the references and affected packages it finds. A scan
  that returns an error is rolled back and leaves the database as it found it.
\<close>

fun run_scans ::
  "('v, 'c) version_library \<Rightarrow> database
     \<Rightarrow> (lsif_reference list \<times> vulnerability_affected_package list) list \<Rightarrow> database" where
  "run_scans L db [] = db"
| "run_scans L db (inputs # rest) =
     (let db1 = db\<lparr>lsif_references := fst inputs,
                    vulnerability_affected_packages := snd inputs\<rparr>
      in case ScanMatches L db1 of
           Inl err \<Rightarrow> run_scans L db1 rest
         | Inr db2 \<Rightarrow> run_scans L db2 rest)"

definition unique_pairs :: "vulnerability_match list \<Rightarrow> bool" where
  "unique_pairs tbl =
     distinct (map (\<lambda>m. (m_upload_id m, m_vulnerability_affected_package_id m)) tbl)"

subsection \<open>An instance of the version library\<close>

text \<open>
  Modelled from the spec: a small instance of the library's interface, used to run the
  definitions above on concrete inputs. Following the spec (4.1), a version is
  "major.minor.patch" (here: decimal numbers separated by dots, shorter versions padded
  with zeros), and a constraint is "an operator + version token" with the operators
  "equal, not-equal, greater, greater-or-equal, less, less-or-equal"; no operator means
  equal. Pre-release and build suffixes are not covered by the instance.
\<close>

fun number_of :: "nat \<Rightarrow> string \<Rightarrow> nat option" where
  "number_of acc [] = Some acc"
| "number_of acc (c # cs) =
     (if c \<in> set ''0123456789'' then number_of (10 * acc + (of_char c - 48)) cs else None)"

definition parse_number :: "string \<Rightarrow> nat option" where
  "parse_number s = (if s = [] then None else number_of 0 s)"

definition dotted_version :: "string \<Rightarrow> nat list option" where
  "dotted_version s = parse_all parse_number (split_sep (CHR ''.'') s)"

fun version_less :: "nat list \<Rightarrow> nat list \<Rightarrow> bool" where
  "version_less [] [] = False"
| "version_less [] (y # ys) = (0 < y \<or> version_less [] ys)"
| "version_less (x # xs) [] = False"
| "version_less (x # xs) (y # ys) = (x < y \<or> (x = y \<and> version_less xs ys))"

datatype operator = Equal | NotEqual | Greater | GreaterEqual | Less | LessEqual

definition dotted_constraint :: "string \<Rightarrow> (operator \<times> nat list) option" where
  "dotted_constraint s =
     (let (operator, token) =
        (if take 2 s = ''>='' then (GreaterEqual, drop 2 s)
         else if take 2 s = ''<='' then (LessEqual, drop 2 s)
         else if take 2 s = ''!='' then (NotEqual, drop 2 s)
         else if take 1 s = ''>'' then (Greater, drop 1 s)
         else if take 1 s = ''<'' then (Less, drop 1 s)
         else if take 1 s = ''='' then (Equal, drop 1 s)
         else (Equal, s))
      in map_option (Pair operator) (dotted_version token))"

fun dotted_check :: "operator \<times> nat list \<Rightarrow> nat list \<Rightarrow> bool" where
  "dotted_check (Equal, c) v = (\<not> version_less v c \<and> \<not> version_less c v)"
| "dotted_check (NotEqual, c) v = (version_less v c \<or> version_less c v)"
| "dotted_check (Greater, c) v = version_less c v"
| "dotted_check (GreaterEqual, c) v = (\<not> version_less v c)"
| "dotted_check (Less, c) v = version_less v c"
| "dotted_check (LessEqual, c) v = (\<not> version_less c v)"

definition dotted_library :: "(nat list, operator \<times> nat list) version_library" where
  "dotted_library =
     \<lparr>NewVersion = dotted_version, parseSingle = dotted_constraint, check = dotted_check\<rparr>"

subsection \<open>The spec's end-to-end scenario\<close>

text \<open>
  The scenario of the spec (8): upload 10 references \<^verbatim>\<open>github.com/foo/bar\<close> at version
  1.4.0 under the scheme \<^verbatim>\<open>gomod\<close>, and affected package 5 is \<^verbatim>\<open>bar\<close> for the language
  \<^verbatim>\<open>go\<close> with the constraints \<^verbatim>\<open>>=1.0.0\<close> and \<^verbatim>\<open><1.5.0\<close>. A second upload references
  the same package at a version that is not a version. The matches table is empty.
\<close>

definition scenario_db :: database where
  "scenario_db =
     \<lparr>lsif_references =
        [\<lparr>r_dump_id = 10, r_scheme = ''gomod'', r_name = ''github.com/foo/bar'',
          r_version = ''1.4.0''\<rparr>,
         \<lparr>r_dump_id = 11, r_scheme = ''gomod'', r_name = ''github.com/foo/bar'',
          r_version = ''abc''\<rparr>],
      vulnerability_affected_packages =
        [\<lparr>vap_id = 5, vap_vulnerability_id = 77, vap_package_name = ''bar'',
          vap_language = ''go'', vap_namespace = ''github.com/foo'',
          vap_version_constraint = [''>=1.0.0'', ''<1.5.0''], vap_fixed = True,
          vap_fixed_in = Some ''1.5.0''\<rparr>],
      vulnerability_affected_symbols =
        [\<lparr>vas_id = 1, vas_vulnerability_affected_package_id = 5, vas_path = ''bar/a.go'',
          vas_symbols = [''Parse'']\<rparr>,
         \<lparr>vas_id = 2, vas_vulnerability_affected_package_id = 5, vas_path = ''bar/b.go'',
          vas_symbols = [''Load'', ''Store'']\<rparr>],
      vulnerability_matches = [],
      vulnerability_matches_id_seq = 0\<rparr>"

text \<open>
  A physical row of the read queries for the scenario's package: the match id and the
  symbol path vary, the path being NULL when the left join finds no affected symbol.
\<close>

definition scenario_row :: "int \<Rightarrow> string option \<Rightarrow> result_row" where
  "scenario_row matchID path =
     \<lparr>col_id = matchID, col_upload_id = 10, col_vulnerability_id = Some 77,
      col_package_name = Some ''bar'', col_language = Some ''go'',
      col_namespace = Some ''github.com/foo'',
      col_version_constraint = Some [''>=1.0.0'', ''<1.5.0''],
      col_fixed = Some True, col_fixed_in = Some ''1.5.0'',
      col_path = path, col_symbols = map_option (\<lambda>p. [''Parse'']) path, col_count = 3\<rparr>"

section \<open>Proofs\<close>

subsection \<open>Splitting and joining\<close>

lemma split_sep_not_Nil: "split_sep sep s \<noteq> []"
  by (induction s) (auto split: list.splits)

lemma split_sep_append:
  "split_sep sep (a @ sep # b) = split_sep sep a @ split_sep sep b"
  by (induction a) (auto split: list.splits simp: split_sep_not_Nil)

lemma split_join_comma:
  "cs \<noteq> [] \<Longrightarrow> split_comma (join_comma cs) = concat (map split_comma cs)"
  by (induction cs rule: join_comma.induct) (auto simp: split_sep_append)

lemma parse_all_append:
  "parse_all p (xs @ ys) =
     (case parse_all p xs of
        None \<Rightarrow> None
      | Some a \<Rightarrow> (case parse_all p ys of None \<Rightarrow> None | Some b \<Rightarrow> Some (a @ b)))"
  by (induction xs) (auto split: option.splits)

lemma parse_all_concat_Some:
  "parse_all p (concat xss) = Some k \<Longrightarrow>
     \<exists>ks. list_all2 (\<lambda>xs k'. parse_all p xs = Some k') xss ks \<and> k = concat ks"
proof (induction xss arbitrary: k)
  case Nil
  then show ?case by simp
next
  case (Cons xs xss)
  from Cons.prems obtain a b where
    a: "parse_all p xs = Some a" and b: "parse_all p (concat xss) = Some b" and k: "k = a @ b"
    by (auto simp: parse_all_append split: option.splits)
  from Cons.IH [OF b] obtain ks where
    "list_all2 (\<lambda>xs k'. parse_all p xs = Some k') xss ks" "b = concat ks" by blast
  with a k show ?case by (intro exI [of _ "a # ks"]) simp
qed

lemma Check_concat:
  "list_all2 (\<lambda>xs k'. parse_all (parseSingle L) xs = Some k') (map split_comma cs) ks \<Longrightarrow>
     Check L (concat ks) v = (\<forall>c \<in> set cs. satisfies L v c)"
proof (induction cs arbitrary: ks)
  case Nil
  then show ?case by (simp add: Check_def)
next
  case (Cons c cs)
  from Cons.prems obtain k0 ks0 where
    "ks = k0 # ks0" "parse_all (parseSingle L) (split_comma c) = Some k0"
    "list_all2 (\<lambda>xs k'. parse_all (parseSingle L) xs = Some k') (map split_comma cs) ks0"
    by (auto simp: list_all2_Cons1)
  with Cons.IH [of ks0] show ?case
    by (auto simp: Check_def satisfies_def NewConstraint_def)
qed

text \<open>
  C1. When the version string parses and the comma-joined constraint list parses, the
  evaluator returns \<open>valid = True\<close>, and \<open>matches\<close> is true exactly when the version
  satisfies every element of the list. The empty string is not a constraint for the
  library, so a list that parses is never empty.
\<close>

theorem versionMatchesConstraints_conjunction:
  assumes v: "NewVersion L versionString = Some v"
    and k: "NewConstraint L (join_comma constraints) = Some k"
    and e: "parseSingle L [] = None"
  shows "versionMatchesConstraints L versionString constraints =
           (\<forall>c \<in> set constraints. satisfies L v c, True)"
proof -
  have ne: "constraints \<noteq> []"
  proof
    assume "constraints = []"
    with k e show False by (simp add: NewConstraint_def)
  qed
  from k have "parse_all (parseSingle L) (concat (map split_comma constraints)) = Some k"
    by (simp add: NewConstraint_def split_join_comma [OF ne])
  from parse_all_concat_Some [OF this] obtain ks where
    ks: "list_all2 (\<lambda>xs k'. parse_all (parseSingle L) xs = Some k')
           (map split_comma constraints) ks"
    and kk: "k = concat ks" by blast
  from Check_concat [OF ks] v k kk show ?thesis
    by (simp add: versionMatchesConstraints_def)
qed

theorem versionMatchesConstraints_conjunction_witness:
  "NewVersion dotted_library ''1.2.3'' = Some [1, 2, 3]
   \<and> NewConstraint dotted_library (join_comma [''>=1.0.0'', ''<2.0.0''])
       = Some [(GreaterEqual, [1, 0, 0]), (Less, [2, 0, 0])]
   \<and> parseSingle dotted_library [] = None
   \<and> versionMatchesConstraints dotted_library ''1.2.3'' [''>=1.0.0'', ''<2.0.0'']
       = (\<forall>c \<in> set [''>=1.0.0'', ''<2.0.0'']. satisfies dotted_library [1, 2, 3] c, True)
   \<and> versionMatchesConstraints dotted_library ''1.2.3'' [''>=1.0.0'', ''<2.0.0''] = (True, True)
   \<and> versionMatchesConstraints dotted_library ''2.0.0'' [''>=1.0.0'', ''<2.0.0''] = (False, True)"
proof -
  have v: "NewVersion dotted_library ''1.2.3'' = Some [1, 2, 3]"
    by code_simp
  have k: "NewConstraint dotted_library (join_comma [''>=1.0.0'', ''<2.0.0''])
             = Some [(GreaterEqual, [1, 0, 0]), (Less, [2, 0, 0])]"
    by code_simp
  have e: "parseSingle dotted_library [] = None"
    by code_simp
  have m1: "versionMatchesConstraints dotted_library ''1.2.3'' [''>=1.0.0'', ''<2.0.0''] = (True, True)"
    by code_simp
  have m2: "versionMatchesConstraints dotted_library ''2.0.0'' [''>=1.0.0'', ''<2.0.0''] = (False, True)"
    by code_simp
  from versionMatchesConstraints_conjunction [OF v k e] v k e m1 m2 show ?thesis
    by blast
qed

subsection \<open>The filtered scan and the update statement\<close>

lemma scanCandidateRow_eq:
  "scanCandidateRow L s =
     Inr (\<lparr>sm_UploadID = c_dump_id s, sm_VulnerabilityAffectedPackageID = c_vap_id s\<rparr>,
          fst (versionMatchesConstraints L (c_version s) (c_version_constraint s)))"
  by (simp add: scanCandidateRow_def split: prod.splits)

lemma filteredSlice_scanCandidateRow:
  "filteredSlice (scanCandidateRow L) rows values =
     Inr (values @
          map (\<lambda>s. \<lparr>sm_UploadID = c_dump_id s, sm_VulnerabilityAffectedPackageID = c_vap_id s\<rparr>)
            (filter (\<lambda>s. fst (versionMatchesConstraints L (c_version s) (c_version_constraint s)))
               rows))"
  by (induction rows arbitrary: "values") (simp_all add: scanCandidateRow_eq)

lemma ScanMatches_eq:
  "ScanMatches L db =
     Inr (scanMatchesUpdateQuery
            (map (\<lambda>s. (c_dump_id s, c_vap_id s))
               (filter (\<lambda>s. fst (versionMatchesConstraints L (c_version s) (c_version_constraint s)))
                  (scanMatchesQuery db)))
            db)"
  by (simp add: ScanMatches_def scanFilteredVulnerabilityMatches_def
      NewFilteredSliceScanner_def filteredSlice_scanCandidateRow comp_def)

lemma conflicts_iff:
  "conflicts tbl t \<longleftrightarrow>
     t \<in> set (map (\<lambda>m. (m_upload_id m, m_vulnerability_affected_package_id m)) tbl)"
  by (cases t) (auto simp: conflicts_def list_ex_iff)

lemma insert_unique_pairs:
  "unique_pairs tbl \<Longrightarrow> unique_pairs (fst (insertOnConflictDoNothing ts (tbl, seq)))"
  by (induction ts arbitrary: tbl seq) (auto simp: Let_def conflicts_iff unique_pairs_def)

lemma insert_absorbed:
  "\<forall>t \<in> set ts. conflicts tbl t \<Longrightarrow> fst (insertOnConflictDoNothing ts (tbl, seq)) = tbl"
  by (induction ts arbitrary: seq) (auto simp: Let_def)

lemma insert_conflicts_mono:
  "conflicts tbl t \<Longrightarrow> conflicts (fst (insertOnConflictDoNothing ts (tbl, seq))) t"
  by (induction ts arbitrary: tbl seq) (auto simp: Let_def conflicts_iff)

lemma insert_all_present:
  "t \<in> set ts \<Longrightarrow> conflicts (fst (insertOnConflictDoNothing ts (tbl, seq))) t"
proof (induction ts arbitrary: tbl seq)
  case Nil
  then show ?case by simp
next
  case (Cons a ts)
  show ?case
  proof (cases "t = a")
    case True
    then show ?thesis
      by (auto simp: Let_def intro!: insert_conflicts_mono) (simp add: conflicts_iff)
  next
    case False
    with Cons show ?thesis by (auto simp: Let_def)
  qed
qed

lemma matches_after_update:
  "vulnerability_matches (scanMatchesUpdateQuery ts db) =
     fst (insertOnConflictDoNothing ts (vulnerability_matches db, vulnerability_matches_id_seq db))"
  by (simp add: scanMatchesUpdateQuery_def split: prod.splits)

lemma scanMatchesQuery_after_update:
  "scanMatchesQuery (scanMatchesUpdateQuery ts db) = scanMatchesQuery db"
  by (simp add: scanMatchesUpdateQuery_def scanMatchesQuery_def split: prod.splits)

lemma ScanMatches_unique_pairs:
  "unique_pairs (vulnerability_matches db) \<Longrightarrow> ScanMatches L db = Inr db' \<Longrightarrow>
     unique_pairs (vulnerability_matches db')"
  by (auto simp: ScanMatches_eq matches_after_update insert_unique_pairs)

lemma run_scans_unique_pairs:
  "unique_pairs (vulnerability_matches db) \<Longrightarrow>
     unique_pairs (vulnerability_matches (run_scans L db inputs))"
proof (induction inputs arbitrary: db)
  case Nil
  then show ?case by simp
next
  case (Cons i inputs)
  let ?db1 = "db\<lparr>lsif_references := fst i, vulnerability_affected_packages := snd i\<rparr>"
  have u1: "unique_pairs (vulnerability_matches ?db1)" using Cons.prems by simp
  show ?case
  proof (cases "ScanMatches L ?db1")
    case (Inl e)
    with Cons.IH [OF u1] show ?thesis by (simp add: Let_def)
  next
    case (Inr db2)
    from ScanMatches_unique_pairs [OF u1 Inr] have "unique_pairs (vulnerability_matches db2)" .
    from Cons.IH [OF this] Inr show ?thesis by (simp add: Let_def)
  qed
qed

lemma unique_pairs_at_most_one:
  "unique_pairs tbl \<Longrightarrow>
     length (filter (\<lambda>m. m_upload_id m = u \<and> m_vulnerability_affected_package_id m = p) tbl) \<le> 1"
proof (induction tbl)
  case Nil
  then show ?case by simp
next
  case (Cons m tbl)
  then have d: "(m_upload_id m, m_vulnerability_affected_package_id m)
                  \<notin> set (map (\<lambda>m. (m_upload_id m, m_vulnerability_affected_package_id m)) tbl)"
    and u: "unique_pairs tbl"
    by (simp_all add: unique_pairs_def)
  show ?case
  proof (cases "m_upload_id m = u \<and> m_vulnerability_affected_package_id m = p")
    case True
    with d have "filter (\<lambda>m. m_upload_id m = u \<and> m_vulnerability_affected_package_id m = p) tbl = []"
      by (force simp: filter_empty_conv image_iff)
    with True show ?thesis by simp
  next
    case False
    then have "filter (\<lambda>m. m_upload_id m = u \<and> m_vulnerability_affected_package_id m = p) (m # tbl)
               = filter (\<lambda>m. m_upload_id m = u \<and> m_vulnerability_affected_package_id m = p) tbl"
      by auto
    with Cons.IH [OF u] show ?thesis by simp
  qed
qed

subsection \<open>Claims about the scan\<close>

text \<open>
  C2. If the matches table holds at most one row per pair \<open>(uploadID,
  affectedPackageID)\<close>, it still does after any sequence of \<^verbatim>\<open>ScanMatches\<close> invocations,
  whatever references and catalog each invocation finds. An insert attempt for a pair
  that is already present adds no row, and \<^verbatim>\<open>ScanMatches\<close> returns no error.
\<close>

theorem matches_pair_unique:
  assumes "unique_pairs (vulnerability_matches db)"
  shows "length (filter (\<lambda>m. m_upload_id m = uploadID
                            \<and> m_vulnerability_affected_package_id m = affectedPackageID)
                   (vulnerability_matches (run_scans L db inputs))) \<le> 1
         \<and> (conflicts (vulnerability_matches db) t \<longrightarrow>
               vulnerability_matches (scanMatchesUpdateQuery [t] db) = vulnerability_matches db)
         \<and> (\<exists>db'. ScanMatches L db = Inr db')"
proof (intro conjI impI)
  show "length (filter (\<lambda>m. m_upload_id m = uploadID
                            \<and> m_vulnerability_affected_package_id m = affectedPackageID)
                  (vulnerability_matches (run_scans L db inputs))) \<le> 1"
    by (rule unique_pairs_at_most_one) (rule run_scans_unique_pairs [OF assms])
next
  assume "conflicts (vulnerability_matches db) t"
  then show "vulnerability_matches (scanMatchesUpdateQuery [t] db) = vulnerability_matches db"
    by (simp add: matches_after_update insert_absorbed)
next
  show "\<exists>db'. ScanMatches L db = Inr db'"
    by (simp add: ScanMatches_eq)
qed

theorem matches_pair_unique_witness:
  "unique_pairs (vulnerability_matches
     (scenario_db\<lparr>vulnerability_matches :=
        [\<lparr>m_id = 1, m_upload_id = 10, m_vulnerability_affected_package_id = 5\<rparr>]\<rparr>))
   \<and> conflicts (vulnerability_matches
        (scenario_db\<lparr>vulnerability_matches :=
           [\<lparr>m_id = 1, m_upload_id = 10, m_vulnerability_affected_package_id = 5\<rparr>]\<rparr>)) (10, 5)
   \<and> length (filter (\<lambda>m. m_upload_id m = 10 \<and> m_vulnerability_affected_package_id m = 5)
        (vulnerability_matches (run_scans dotted_library
           (scenario_db\<lparr>vulnerability_matches :=
              [\<lparr>m_id = 1, m_upload_id = 10, m_vulnerability_affected_package_id = 5\<rparr>]\<rparr>)
           [(lsif_references scenario_db, vulnerability_affected_packages scenario_db),
            (lsif_references scenario_db, vulnerability_affected_packages scenario_db)]))) \<le> 1
   \<and> vulnerability_matches (scanMatchesUpdateQuery [(10, 5)]
        (scenario_db\<lparr>vulnerability_matches :=
           [\<lparr>m_id = 1, m_upload_id = 10, m_vulnerability_affected_package_id = 5\<rparr>]\<rparr>))
       = [\<lparr>m_id = 1, m_upload_id = 10, m_vulnerability_affected_package_id = 5\<rparr>]"
proof -
  let ?db = "scenario_db\<lparr>vulnerability_matches :=
               [\<lparr>m_id = 1, m_upload_id = 10, m_vulnerability_affected_package_id = 5\<rparr>]\<rparr>"
  have u: "unique_pairs (vulnerability_matches ?db)"
    by (simp add: unique_pairs_def)
  have c: "conflicts (vulnerability_matches ?db) (10, 5)"
    by (simp add: conflicts_def)
  from matches_pair_unique [OF u, of 10 5 dotted_library
      "[(lsif_references scenario_db, vulnerability_affected_packages scenario_db),
        (lsif_references scenario_db, vulnerability_affected_packages scenario_db)]" "(10, 5)"] u c
  show ?thesis by simp
qed

text \<open>
  C3. \<^verbatim>\<open>ScanMatches\<close> is idempotent: both runs return without error, the first run
  leaves the references and the catalog as they were, and the matches table after the
  second run is the table after the first run.
\<close>

theorem ScanMatches_idempotent:
  "\<exists>db1 db2. ScanMatches L db = Inr db1 \<and> ScanMatches L db1 = Inr db2
     \<and> lsif_references db1 = lsif_references db
     \<and> vulnerability_affected_packages db1 = vulnerability_affected_packages db
     \<and> vulnerability_matches db2 = vulnerability_matches db1"
proof -
  let ?staged = "map (\<lambda>s. (c_dump_id s, c_vap_id s))
                   (filter (\<lambda>s. fst (versionMatchesConstraints L (c_version s) (c_version_constraint s)))
                      (scanMatchesQuery db))"
  let ?db1 = "scanMatchesUpdateQuery ?staged db"
  let ?db2 = "scanMatchesUpdateQuery ?staged ?db1"
  have r1: "ScanMatches L db = Inr ?db1"
    by (rule ScanMatches_eq)
  have r2: "ScanMatches L ?db1 = Inr ?db2"
    by (simp add: ScanMatches_eq scanMatchesQuery_after_update)
  have present: "\<forall>t \<in> set ?staged. conflicts (vulnerability_matches ?db1) t"
    unfolding matches_after_update by (blast intro: insert_all_present)
  have same: "vulnerability_matches ?db2 = vulnerability_matches ?db1"
    using insert_absorbed [OF present] by (simp add: matches_after_update [of ?staged ?db1])
  have refs: "lsif_references ?db1 = lsif_references db"
    and cat: "vulnerability_affected_packages ?db1 = vulnerability_affected_packages db"
    by (simp_all add: scanMatchesUpdateQuery_def split: prod.splits)
  from r1 r2 same refs cat show ?thesis by blast
qed

theorem ScanMatches_idempotent_witness:
  "\<exists>db1 db2. ScanMatches dotted_library scenario_db = Inr db1
     \<and> ScanMatches dotted_library db1 = Inr db2
     \<and> vulnerability_matches db1
         = [\<lparr>m_id = 1, m_upload_id = 10, m_vulnerability_affected_package_id = 5\<rparr>]
     \<and> vulnerability_matches db2
         = [\<lparr>m_id = 1, m_upload_id = 10, m_vulnerability_affected_package_id = 5\<rparr>]"
proof -
  have first: "ScanMatches dotted_library scenario_db =
      Inr (scenario_db\<lparr>vulnerability_matches :=
             [\<lparr>m_id = 1, m_upload_id = 10, m_vulnerability_affected_package_id = 5\<rparr>],
           vulnerability_matches_id_seq := 1\<rparr>)"
    by code_simp
  from ScanMatches_idempotent [of dotted_library scenario_db] first show ?thesis
    by auto
qed

text \<open>
  C7. A version string or a constraint expression that does not parse makes the
  evaluator return \<open>matches = False, valid = False\<close>. The row function of the filtered
  scan then returns the candidate with \<open>False\<close> and no error, and \<^verbatim>\<open>ScanMatches\<close> returns
  without error, having staged exactly the candidates on which the evaluator returns
  \<open>matches = True\<close>.
\<close>

theorem invalid_candidate_excluded:
  "(NewVersion L versionString = None \<or> NewConstraint L (join_comma constraints) = None
      \<longrightarrow> versionMatchesConstraints L versionString constraints = (False, False))
   \<and> (NewVersion L (c_version s) = None
        \<or> NewConstraint L (join_comma (c_version_constraint s)) = None
      \<longrightarrow> scanCandidateRow L s =
            Inr (\<lparr>sm_UploadID = c_dump_id s, sm_VulnerabilityAffectedPackageID = c_vap_id s\<rparr>,
                 False))
   \<and> ScanMatches L db =
       Inr (scanMatchesUpdateQuery
              (map (\<lambda>s. (c_dump_id s, c_vap_id s))
                 (filter (\<lambda>s. fst (versionMatchesConstraints L (c_version s)
                                      (c_version_constraint s)))
                    (scanMatchesQuery db)))
              db)"
proof -
  have a: "versionMatchesConstraints L x cs = (False, False)"
    if "NewVersion L x = None \<or> NewConstraint L (join_comma cs) = None" for x cs
    using that by (auto simp: versionMatchesConstraints_def split: option.splits)
  show ?thesis
    using a [of versionString constraints] a [of "c_version s" "c_version_constraint s"]
    by (auto simp: scanCandidateRow_eq ScanMatches_eq)
qed

theorem invalid_candidate_excluded_witness:
  "NewVersion dotted_library ''abc'' = None
   \<and> versionMatchesConstraints dotted_library ''abc'' [''>=1.0.0'', ''<1.5.0''] = (False, False)
   \<and> scanCandidateRow dotted_library
        \<lparr>c_dump_id = 11, c_vap_id = 5, c_version = ''abc'',
         c_version_constraint = [''>=1.0.0'', ''<1.5.0'']\<rparr>
       = Inr (\<lparr>sm_UploadID = 11, sm_VulnerabilityAffectedPackageID = 5\<rparr>, False)
   \<and> map c_dump_id (scanMatchesQuery scenario_db) = [10, 11]
   \<and> ScanMatches dotted_library scenario_db =
       Inr (scenario_db\<lparr>vulnerability_matches :=
              [\<lparr>m_id = 1, m_upload_id = 10, m_vulnerability_affected_package_id = 5\<rparr>],
            vulnerability_matches_id_seq := 1\<rparr>)"
proof -
  have n: "NewVersion dotted_library ''abc'' = None"
    by code_simp
  have q: "map c_dump_id (scanMatchesQuery scenario_db) = [10, 11]"
    by code_simp
  have r: "scanMatchesUpdateQuery
              (map (\<lambda>s. (c_dump_id s, c_vap_id s))
                 (filter (\<lambda>s. fst (versionMatchesConstraints dotted_library (c_version s)
                                      (c_version_constraint s)))
                    (scanMatchesQuery scenario_db)))
              scenario_db
           = scenario_db\<lparr>vulnerability_matches :=
              [\<lparr>m_id = 1, m_upload_id = 10, m_vulnerability_affected_package_id = 5\<rparr>],
            vulnerability_matches_id_seq := 1\<rparr>"
    by code_simp
  from invalid_candidate_excluded [of dotted_library "''abc''" "[''>=1.0.0'', ''<1.5.0'']"
      "\<lparr>c_dump_id = 11, c_vap_id = 5, c_version = ''abc'',
         c_version_constraint = [''>=1.0.0'', ''<1.5.0'']\<rparr>" scenario_db] n q r
  show ?thesis by simp
qed

subsection \<open>The row scanner\<close>

lemma scanMatchRow_Inl: "col_vulnerability_id s = None \<Longrightarrow> scanMatchRow s = Inl ScanError"
  by (simp add: scanMatchRow_def)

lemma scanMatchRow_Inr:
  "scanMatchRow s = Inr (m, n) \<Longrightarrow> col_vulnerability_id s \<noteq> None \<and> n = col_count s \<and> ID m = col_id s"
  by (auto simp: scanMatchRow_def Let_def split: option.splits if_splits)

lemma scanMatchRow_package:
  assumes "scanMatchRow s = Inr (m, n)"
  shows "AffectedPackage m =
           (if NullString (col_package_name s) = [] then zeroAffectedPackage
            else \<lparr>PackageName = NullString (col_package_name s),
                  Language = NullString (col_language s),
                  Namespace = NullString (col_namespace s),
                  VersionConstraint = pqArray (col_version_constraint s),
                  Fixed = NullBool (col_fixed s),
                  FixedIn = (if NullString (col_fixed_in s) = [] then None
                             else Some (NullString (col_fixed_in s))),
                  AffectedSymbols = (if NullString (col_path s) = [] then []
                                     else [\<lparr>Path = NullString (col_path s), Symbols = []\<rparr>])\<rparr>)"
  using assms
  by (auto simp: scanMatchRow_def Let_def zeroAffectedPackage_def split: option.splits)

lemma scanMatchRow_total:
  "col_vulnerability_id s \<noteq> None \<Longrightarrow> \<exists>m. scanMatchRow s = Inr (m, col_count s)"
  by (auto simp: scanMatchRow_def Let_def split: option.splits)

subsection \<open>The slice scanner\<close>


lemma sliceWithCount_Inr:
  "sliceWithCount f rows values totalCount = Inr (ms, n) \<Longrightarrow>
     (\<forall>r \<in> set rows. \<exists>m c. f r = Inr (m, c))
     \<and> ms = values @ map (\<lambda>r. fst (projr (f r))) rows
     \<and> n = (if rows = [] then totalCount else snd (projr (f (last rows))))"
proof (induction rows arbitrary: "values" totalCount)
  case Nil
  then show ?case by simp
next
  case (Cons r rows)
  from Cons.prems obtain m c where fr: "f r = Inr (m, c)"
    and rest: "sliceWithCount f rows (values @ [m]) c = Inr (ms, n)"
    by (auto split: sum.splits)
  from Cons.IH [OF rest] fr show ?case by auto
qed

lemma sliceWithCount_total:
  "\<forall>r \<in> set rows. \<exists>m c. f r = Inr (m, c) \<Longrightarrow>
     \<exists>ms n. sliceWithCount f rows values totalCount = Inr (ms, n)"
proof (induction rows arbitrary: "values" totalCount)
  case Nil
  then show ?case by simp
next
  case (Cons r rows)
  then obtain m c where fr: "f r = Inr (m, c)" by auto
  from Cons.IH [of "values @ [m]" c] Cons.prems fr show ?case by auto
qed


lemma scanVulnerabilityMatchesAndCount_Inr:
  assumes "scanVulnerabilityMatchesAndCount (rows, e) = Inr (ms, totalCount)"
  shows "e = None"
    and "\<forall>s \<in> set rows. \<exists>m. scanMatchRow s = Inr (m, col_count s)"
    and "ms = flattenMatches (map (\<lambda>s. fst (projr (scanMatchRow s))) rows)"
    and "totalCount = (if rows = [] then 0 else col_count (last rows))"
proof -
  from assms show e: "e = None"
    by (auto simp: scanVulnerabilityMatchesAndCount_def NewSliceWithCountScanner_def
        split: option.splits)
  from assms e obtain ms0 where
    s: "sliceWithCount scanMatchRow rows [] 0 = Inr (ms0, totalCount)" and ms: "ms = flattenMatches ms0"
    by (auto simp: scanVulnerabilityMatchesAndCount_def NewSliceWithCountScanner_def
        split: sum.splits)
  note r = sliceWithCount_Inr [OF s]
  from r show all: "\<forall>s \<in> set rows. \<exists>m. scanMatchRow s = Inr (m, col_count s)"
    by (metis scanMatchRow_Inr)
  from r ms show "ms = flattenMatches (map (\<lambda>s. fst (projr (scanMatchRow s))) rows)"
    by simp
  show "totalCount = (if rows = [] then 0 else col_count (last rows))"
  proof (cases "rows = []")
    case True
    with r show ?thesis by simp
  next
    case False
    then have "last rows \<in> set rows" by simp
    with all obtain m where "scanMatchRow (last rows) = Inr (m, col_count (last rows))" by blast
    with r False show ?thesis by simp
  qed
qed

lemma scanVulnerabilityMatchesAndCount_total:
  assumes "\<forall>s \<in> set rows. col_vulnerability_id s \<noteq> None"
  shows "scanVulnerabilityMatchesAndCount (rows, None) =
           Inr (flattenMatches (map (\<lambda>s. fst (projr (scanMatchRow s))) rows),
                if rows = [] then 0 else col_count (last rows))"
proof -
  from assms have "\<forall>s \<in> set rows. \<exists>m c. scanMatchRow s = Inr (m, c)"
    by (meson scanMatchRow_total)
  from sliceWithCount_total [OF this, of "[]" 0] obtain ms n where
    "sliceWithCount scanMatchRow rows [] 0 = Inr (ms, n)" by blast
  then have "\<exists>ms n. scanVulnerabilityMatchesAndCount (rows, None) = Inr (ms, n)"
    by (simp add: scanVulnerabilityMatchesAndCount_def NewSliceWithCountScanner_def)
  then obtain ms n where r: "scanVulnerabilityMatchesAndCount (rows, None) = Inr (ms, n)"
    by blast
  from scanVulnerabilityMatchesAndCount_Inr(3,4) [OF r] r show ?thesis by simp
qed

subsection \<open>\<^verbatim>\<open>flattenMatches\<close>\<close>

lemma flattenStep_Nil: "flattenStep [] m = [m]"
  by (simp add: flattenStep_def)

lemma flattenStep_snoc:
  "flattenStep (fl @ [l]) m =
     (if ID l \<noteq> ID m then fl @ [l, m]
      else if PackageName (AffectedPackage l) = [] then
        fl @ [l\<lparr>AffectedPackage := AffectedPackage m\<rparr>]
      else fl @ [l\<lparr>AffectedPackage := (AffectedPackage l)
                    \<lparr>AffectedSymbols := AffectedSymbols (AffectedPackage l)
                                         @ AffectedSymbols (AffectedPackage m)\<rparr>\<rparr>])"
  by (simp add: flattenStep_def Let_def)

lemma flattenStep_invariant:
  assumes fl: "\<forall>x \<in> set fl. P x" and m: "P m"
    and replace: "\<And>a b. P a \<Longrightarrow> P b \<Longrightarrow> ID a = ID b \<Longrightarrow> PackageName (AffectedPackage a) = []
                   \<Longrightarrow> P (a\<lparr>AffectedPackage := AffectedPackage b\<rparr>)"
    and extend: "\<And>a b. P a \<Longrightarrow> P b \<Longrightarrow> ID a = ID b \<Longrightarrow> PackageName (AffectedPackage a) \<noteq> []
                   \<Longrightarrow> P (a\<lparr>AffectedPackage := (AffectedPackage a)
                          \<lparr>AffectedSymbols := AffectedSymbols (AffectedPackage a)
                                               @ AffectedSymbols (AffectedPackage b)\<rparr>\<rparr>)"
  shows "\<forall>x \<in> set (flattenStep fl m). P x"
proof (cases fl rule: rev_cases)
  case Nil
  with m show ?thesis by (simp add: flattenStep_Nil)
next
  case (snoc fl' l)
  with fl have l: "P l" and fl': "\<forall>x \<in> set fl'. P x" by simp_all
  show ?thesis
    unfolding snoc flattenStep_snoc
    using l fl' m replace [OF l m] extend [OF l m] by auto
qed

lemma flattenMatches_invariant:
  assumes ms: "\<forall>m \<in> set ms. P m"
    and replace: "\<And>a b. P a \<Longrightarrow> P b \<Longrightarrow> ID a = ID b \<Longrightarrow> PackageName (AffectedPackage a) = []
                   \<Longrightarrow> P (a\<lparr>AffectedPackage := AffectedPackage b\<rparr>)"
    and extend: "\<And>a b. P a \<Longrightarrow> P b \<Longrightarrow> ID a = ID b \<Longrightarrow> PackageName (AffectedPackage a) \<noteq> []
                   \<Longrightarrow> P (a\<lparr>AffectedPackage := (AffectedPackage a)
                          \<lparr>AffectedSymbols := AffectedSymbols (AffectedPackage a)
                                               @ AffectedSymbols (AffectedPackage b)\<rparr>\<rparr>)"
  shows "\<forall>m \<in> set (flattenMatches ms). P m"
proof -
  have "\<forall>x \<in> set fl. P x \<Longrightarrow> \<forall>m \<in> set ms. P m \<Longrightarrow> \<forall>x \<in> set (foldl flattenStep fl ms). P x"
    for fl
  proof (induction ms arbitrary: fl)
    case Nil
    then show ?case by simp
  next
    case (Cons m ms)
    from Cons.prems have "\<forall>x \<in> set (flattenStep fl m). P x"
      by (intro flattenStep_invariant replace extend) simp_all
    with Cons.IH [of "flattenStep fl m"] Cons.prems show ?case by simp
  qed
  from this [of "[]"] ms show ?thesis by (simp add: flattenMatches_def)
qed

lemma flatten_group:
  assumes "\<forall>m \<in> set ms. ID m = ID m0" and "PackageName (AffectedPackage m0) \<noteq> []"
  shows "foldl flattenStep [m0] ms =
           [m0\<lparr>AffectedPackage := (AffectedPackage m0)
                \<lparr>AffectedSymbols := AffectedSymbols (AffectedPackage m0)
                    @ concat (map (\<lambda>m. AffectedSymbols (AffectedPackage m)) ms)\<rparr>\<rparr>]"
  using assms
proof (induction ms arbitrary: m0)
  case Nil
  then show ?case by simp
next
  case (Cons m ms)
  let ?m1 = "m0\<lparr>AffectedPackage := (AffectedPackage m0)
                \<lparr>AffectedSymbols := AffectedSymbols (AffectedPackage m0)
                                     @ AffectedSymbols (AffectedPackage m)\<rparr>\<rparr>"
  from Cons.prems have step: "flattenStep [m0] m = [?m1]"
    using flattenStep_snoc [of "[]" m0 m] by simp
  have "foldl flattenStep [?m1] ms =
          [?m1\<lparr>AffectedPackage := (AffectedPackage ?m1)
                \<lparr>AffectedSymbols := AffectedSymbols (AffectedPackage ?m1)
                    @ concat (map (\<lambda>m. AffectedSymbols (AffectedPackage m)) ms)\<rparr>\<rparr>]"
    using Cons.prems by (intro Cons.IH) simp_all
  with step show ?case by simp
qed

lemma flattenStep_not_Nil: "flattenStep fl m \<noteq> []"
  by (cases fl rule: rev_cases) (simp_all add: flattenStep_Nil flattenStep_snoc)

lemma flattenStep_append:
  "xs \<noteq> [] \<Longrightarrow> flattenStep (acc @ xs) m = acc @ flattenStep xs m"
proof (cases xs rule: rev_cases)
  case Nil
  assume "xs \<noteq> []"
  with Nil show ?thesis by simp
next
  case (snoc ys l)
  show ?thesis
    unfolding snoc using flattenStep_snoc [of "acc @ ys" l m] flattenStep_snoc [of ys l m]
    by simp
qed

lemma foldl_flattenStep_append:
  "xs \<noteq> [] \<Longrightarrow> foldl flattenStep (acc @ xs) ms = acc @ foldl flattenStep xs ms"
proof (induction ms arbitrary: xs)
  case Nil
  then show ?case by simp
next
  case (Cons m ms)
  from Cons.IH [OF flattenStep_not_Nil, of xs m] Cons.prems show ?case
    by (simp add: flattenStep_append)
qed

lemma foldl_flattenStep_new:
  assumes "fl = [] \<or> ID (last fl) \<noteq> ID m"
  shows "foldl flattenStep fl (m # ms) = fl @ foldl flattenStep [m] ms"
proof -
  have "flattenStep fl m = fl @ [m]"
  proof (cases fl rule: rev_cases)
    case Nil
    then show ?thesis by (simp add: flattenStep_Nil)
  next
    case (snoc ys l)
    with assms show ?thesis by (simp add: flattenStep_snoc)
  qed
  then show ?thesis
    using foldl_flattenStep_append [of "[m]" fl ms] by simp
qed

lemma flattenMatches_Cons: "flattenMatches (m # ms) = foldl flattenStep [m] ms"
  by (simp add: flattenMatches_def flattenStep_Nil)

lemma flattenMatches_IDs:
  assumes "\<forall>m \<in> set ms. ID m \<noteq> k"
  shows "\<forall>m \<in> set (flattenMatches ms). ID m \<noteq> k"
  by (rule flattenMatches_invariant [where P = "\<lambda>m. ID m \<noteq> k", OF assms]) simp_all

lemma flattenMatches_segment:
  assumes before: "\<forall>m \<in> set before. ID m \<noteq> ID g"
    and after: "\<forall>m \<in> set after. ID m \<noteq> ID g"
    and matchRows: "\<forall>m \<in> set gs. ID m = ID g"
    and name: "PackageName (AffectedPackage g) \<noteq> []"
  shows "flattenMatches (before @ g # gs @ after) =
           flattenMatches before
           @ [g\<lparr>AffectedPackage := (AffectedPackage g)
                \<lparr>AffectedSymbols := AffectedSymbols (AffectedPackage g)
                    @ concat (map (\<lambda>m. AffectedSymbols (AffectedPackage m)) gs)\<rparr>\<rparr>]
           @ flattenMatches after"
proof -
  let ?m = "g\<lparr>AffectedPackage := (AffectedPackage g)
                \<lparr>AffectedSymbols := AffectedSymbols (AffectedPackage g)
                    @ concat (map (\<lambda>m. AffectedSymbols (AffectedPackage m)) gs)\<rparr>\<rparr>"
  let ?fb = "flattenMatches before"
  have fb: "?fb = [] \<or> ID (last ?fb) \<noteq> ID g"
    using flattenMatches_IDs [OF before] by (cases "?fb = []") (auto dest: last_in_set)
  have 1: "foldl flattenStep ?fb (g # gs) = ?fb @ [?m]"
    using foldl_flattenStep_new [OF fb, of gs] flatten_group [OF matchRows name] by simp
  have 2: "foldl flattenStep (?fb @ [?m]) after = ?fb @ [?m] @ flattenMatches after"
  proof (cases after)
    case Nil
    then show ?thesis by (simp add: flattenMatches_def)
  next
    case (Cons a as)
    with after have "ID (last (?fb @ [?m])) \<noteq> ID a" by auto
    then have "foldl flattenStep (?fb @ [?m]) (a # as) = (?fb @ [?m]) @ foldl flattenStep [a] as"
      by (intro foldl_flattenStep_new) simp
    with Cons show ?thesis by (simp add: flattenMatches_Cons)
  qed
  have "flattenMatches (before @ g # gs @ after)
          = foldl flattenStep (foldl flattenStep ?fb (g # gs)) after"
    by (simp add: flattenMatches_def)
  with 1 2 show ?thesis by simp
qed

subsection \<open>Claims about the reconstruction\<close>

text \<open>
  C4 (as stated). One physical row for a match whose package has no affected symbol
  (the left join misses, the symbol columns are NULL): the reconstruction yields one
  match, and its symbol list has no entry, not one.
\<close>

theorem fanout_join_miss_counterexample:
  "scanVulnerabilityMatchesAndCount
     ([\<lparr>col_id = 1, col_upload_id = 10, col_vulnerability_id = Some 77,
        col_package_name = Some ''bar'', col_language = Some ''go'',
        col_namespace = Some ''github.com/foo'',
        col_version_constraint = Some [''>=1.0.0'', ''<1.5.0''],
        col_fixed = Some True, col_fixed_in = Some ''1.5.0'',
        col_path = None, col_symbols = None, col_count = 1\<rparr>], None)
   = Inr ([\<lparr>ID = 1, UploadID = 10, VulnerabilityID = 77,
            AffectedPackage =
              \<lparr>PackageName = ''bar'', Language = ''go'', Namespace = ''github.com/foo'',
               VersionConstraint = [''>=1.0.0'', ''<1.5.0''], Fixed = True,
               FixedIn = Some ''1.5.0'', AffectedSymbols = []\<rparr>\<rparr>], 1)"
  by code_simp

text \<open>
  C4 (amended). Take any row stream in which the rows of one match id are adjacent
  (\<open>N \<ge> 1\<close> of them, no other row has that id), each carrying an affected package
  (non-empty package name). The reconstruction returns exactly one match with that id,
  between the matches reconstructed from the rows before and after, which it leaves as
  they are. The paths of its symbol list are the non-empty paths of its rows, one entry
  per such row, in the order of the rows: exactly \<open>N\<close> entries when every row carries an
  affected symbol, and no entry for a row whose path is NULL or empty.
\<close>

theorem fanout_reconstruction:
  assumes ne: "matchRows \<noteq> []"
    and grp: "\<forall>s \<in> set matchRows. col_id s = matchID \<and> NullString (col_package_name s) \<noteq> []"
    and others: "\<forall>s \<in> set (before @ after). col_id s \<noteq> matchID"
    and scan: "\<forall>s \<in> set (before @ matchRows @ after). col_vulnerability_id s \<noteq> None"
  shows "\<exists>pre m post.
           scanVulnerabilityMatchesAndCount (before @ matchRows @ after, None)
             = Inr (pre @ [m] @ post, col_count (last (before @ matchRows @ after)))
           \<and> map_sum id fst (scanVulnerabilityMatchesAndCount (before, None)) = Inr pre
           \<and> map_sum id fst (scanVulnerabilityMatchesAndCount (after, None)) = Inr post
           \<and> (\<forall>x \<in> set (pre @ post). ID x \<noteq> matchID)
           \<and> ID m = matchID
           \<and> map Path (AffectedSymbols (AffectedPackage m))
               = filter (\<lambda>p. p \<noteq> []) (map (\<lambda>s. NullString (col_path s)) matchRows)
           \<and> ((\<forall>s \<in> set matchRows. NullString (col_path s) \<noteq> [])
                \<longrightarrow> length (AffectedSymbols (AffectedPackage m)) = length matchRows)"
proof -
  let ?scan = "\<lambda>s. fst (projr (scanMatchRow s))"
  let ?rows = "before @ matchRows @ after"
  have row: "ID (?scan s) = col_id s
      \<and> AffectedPackage (?scan s) =
           (if NullString (col_package_name s) = [] then zeroAffectedPackage
            else \<lparr>PackageName = NullString (col_package_name s),
                  Language = NullString (col_language s),
                  Namespace = NullString (col_namespace s),
                  VersionConstraint = pqArray (col_version_constraint s),
                  Fixed = NullBool (col_fixed s),
                  FixedIn = (if NullString (col_fixed_in s) = [] then None
                             else Some (NullString (col_fixed_in s))),
                  AffectedSymbols = (if NullString (col_path s) = [] then []
                                     else [\<lparr>Path = NullString (col_path s), Symbols = []\<rparr>])\<rparr>)"
    if "s \<in> set ?rows" for s
  proof -
    from that scan obtain m where m: "scanMatchRow s = Inr (m, col_count s)"
      using scanMatchRow_total by blast
    from scanMatchRow_Inr [OF m] scanMatchRow_package [OF m] m show ?thesis by simp
  qed
  have in_group: "ID (?scan s) = matchID \<and> PackageName (AffectedPackage (?scan s)) \<noteq> []
      \<and> map Path (AffectedSymbols (AffectedPackage (?scan s)))
            = filter (\<lambda>p. p \<noteq> []) [NullString (col_path s)]"
    if "s \<in> set matchRows" for s
    using row [of s] grp that by simp
  from ne obtain r rs where rr: "matchRows = r # rs" by (cases matchRows) auto
  have b: "\<forall>m \<in> set (map ?scan before). ID m \<noteq> ID (?scan r)"
    and a: "\<forall>m \<in> set (map ?scan after). ID m \<noteq> ID (?scan r)"
    using row others in_group [of r] by (auto simp: rr)
  have g: "\<forall>m \<in> set (map ?scan rs). ID m = ID (?scan r)"
    using in_group by (auto simp: rr)
  have n: "PackageName (AffectedPackage (?scan r)) \<noteq> []"
    using in_group [of r] by (simp add: rr)
  let ?m = "(?scan r)\<lparr>AffectedPackage := (AffectedPackage (?scan r))
              \<lparr>AffectedSymbols := AffectedSymbols (AffectedPackage (?scan r))
                  @ concat (map (\<lambda>m. AffectedSymbols (AffectedPackage m)) (map ?scan rs))\<rparr>\<rparr>"
  let ?pre = "flattenMatches (map ?scan before)"
  let ?post = "flattenMatches (map ?scan after)"
  have fl: "flattenMatches (map ?scan ?rows) = ?pre @ [?m] @ ?post"
    using flattenMatches_segment [OF b a g n] by (simp add: rr)
  have rows_ne: "?rows \<noteq> []" using ne by simp
  have res: "scanVulnerabilityMatchesAndCount (?rows, None)
               = Inr (?pre @ [?m] @ ?post, col_count (last ?rows))"
  proof -
    have "scanVulnerabilityMatchesAndCount (?rows, None)
            = Inr (flattenMatches (map ?scan ?rows), col_count (last ?rows))"
      using scanVulnerabilityMatchesAndCount_total [OF scan] rows_ne by (simp only: if_False)
    then show ?thesis by (simp only: fl)
  qed
  have "\<forall>s \<in> set before. col_vulnerability_id s \<noteq> None" using scan by simp
  from scanVulnerabilityMatchesAndCount_total [OF this]
  have pre: "map_sum id fst (scanVulnerabilityMatchesAndCount (before, None)) = Inr ?pre"
    by simp
  have "\<forall>s \<in> set after. col_vulnerability_id s \<noteq> None" using scan by simp
  from scanVulnerabilityMatchesAndCount_total [OF this]
  have post: "map_sum id fst (scanVulnerabilityMatchesAndCount (after, None)) = Inr ?post"
    by simp
  have ids: "\<forall>x \<in> set (?pre @ ?post). ID x \<noteq> matchID"
    using flattenMatches_IDs [OF b] flattenMatches_IDs [OF a] in_group [of r]
    by (auto simp: rr)
  have id: "ID ?m = matchID" using in_group [of r] by (simp add: rr)
  have tail: "map Path (concat (map (\<lambda>m. AffectedSymbols (AffectedPackage m)) (map ?scan xs)))
                = filter (\<lambda>p. p \<noteq> []) (map (\<lambda>s. NullString (col_path s)) xs)"
    if "set xs \<subseteq> set matchRows" for xs
    using that
  proof (induction xs)
    case Nil
    then show ?case by simp
  next
    case (Cons x xs)
    with in_group [of x] show ?case by simp
  qed
  have paths: "map Path (AffectedSymbols (AffectedPackage ?m))
                 = filter (\<lambda>p. p \<noteq> []) (map (\<lambda>s. NullString (col_path s)) matchRows)"
  proof -
    have "set rs \<subseteq> set matchRows" by (auto simp: rr)
    from tail [OF this] in_group [of r] show ?thesis by (simp add: rr)
  qed
  have len: "length (AffectedSymbols (AffectedPackage ?m)) = length matchRows"
    if "\<forall>s \<in> set matchRows. NullString (col_path s) \<noteq> []"
  proof -
    from that have "filter (\<lambda>p. p \<noteq> []) (map (\<lambda>s. NullString (col_path s)) matchRows)
                      = map (\<lambda>s. NullString (col_path s)) matchRows"
      by (auto simp: filter_id_conv)
    with paths have "length (map Path (AffectedSymbols (AffectedPackage ?m))) = length matchRows"
      by simp
    then show ?thesis by (simp only: length_map)
  qed
  from res pre post ids id paths len show ?thesis by blast
qed

theorem fanout_reconstruction_witness:
  "map (\<lambda>m. (ID m, map Path (AffectedSymbols (AffectedPackage m))))
     (fst (projr (scanVulnerabilityMatchesAndCount
        ([scenario_row 1 (Some ''bar/x.go''), scenario_row 2 (Some ''bar/a.go''),
          scenario_row 2 (Some ''bar/b.go''), scenario_row 2 (Some ''bar/c.go''),
          scenario_row 3 None], None))))
     = [(1, [''bar/x.go'']), (2, [''bar/a.go'', ''bar/b.go'', ''bar/c.go'']), (3, [])]
   \<and> (\<exists>pre m post.
         scanVulnerabilityMatchesAndCount
           ([scenario_row 1 (Some ''bar/x.go'')]
            @ [scenario_row 2 (Some ''bar/a.go''), scenario_row 2 (Some ''bar/b.go''),
               scenario_row 2 (Some ''bar/c.go'')]
            @ [scenario_row 3 None], None) = Inr (pre @ [m] @ post, 3)
         \<and> ID m = 2
         \<and> map Path (AffectedSymbols (AffectedPackage m)) = [''bar/a.go'', ''bar/b.go'', ''bar/c.go'']
         \<and> length (AffectedSymbols (AffectedPackage m)) = 3)
   \<and> (\<exists>pre m post.
         scanVulnerabilityMatchesAndCount
           ([scenario_row 1 (Some ''bar/x.go''), scenario_row 2 (Some ''bar/a.go''),
             scenario_row 2 (Some ''bar/b.go''), scenario_row 2 (Some ''bar/c.go'')]
            @ [scenario_row 3 None] @ [], None) = Inr (pre @ [m] @ post, 3)
         \<and> ID m = 3
         \<and> map Path (AffectedSymbols (AffectedPackage m)) = [])"
proof -
  let ?x = "scenario_row 1 (Some ''bar/x.go'')"
  let ?abc = "[scenario_row 2 (Some ''bar/a.go''), scenario_row 2 (Some ''bar/b.go''),
               scenario_row 2 (Some ''bar/c.go'')]"
  let ?n = "scenario_row 3 None"
  have whole: "map (\<lambda>m. (ID m, map Path (AffectedSymbols (AffectedPackage m))))
     (fst (projr (scanVulnerabilityMatchesAndCount ([?x] @ ?abc @ [?n], None))))
     = [(1, [''bar/x.go'']), (2, [''bar/a.go'', ''bar/b.go'', ''bar/c.go'']), (3, [])]"
    by code_simp
  have two: "\<exists>pre m post.
      scanVulnerabilityMatchesAndCount ([?x] @ ?abc @ [?n], None) = Inr (pre @ [m] @ post, 3)
      \<and> ID m = 2
      \<and> map Path (AffectedSymbols (AffectedPackage m)) = [''bar/a.go'', ''bar/b.go'', ''bar/c.go'']
      \<and> length (AffectedSymbols (AffectedPackage m)) = 3"
  proof -
    have 1: "?abc \<noteq> []" by simp
    have 2: "\<forall>s \<in> set ?abc. col_id s = 2 \<and> NullString (col_package_name s) \<noteq> []"
      by (simp add: scenario_row_def NullString_def)
    have 3: "\<forall>s \<in> set ([?x] @ [?n]). col_id s \<noteq> 2"
      by (simp add: scenario_row_def)
    have 4: "\<forall>s \<in> set ([?x] @ ?abc @ [?n]). col_vulnerability_id s \<noteq> None"
      by (simp add: scenario_row_def)
    have 5: "\<forall>s \<in> set ?abc. NullString (col_path s) \<noteq> []"
      by (simp add: scenario_row_def NullString_def)
    have 6: "col_count (last ([?x] @ ?abc @ [?n])) = 3"
      by (simp add: scenario_row_def)
    have 7: "filter (\<lambda>p. p \<noteq> []) (map (\<lambda>s. NullString (col_path s)) ?abc)
               = [''bar/a.go'', ''bar/b.go'', ''bar/c.go'']"
      by (simp add: scenario_row_def NullString_def)
    from fanout_reconstruction [OF 1 2 3 4] obtain pre m post where
      r: "scanVulnerabilityMatchesAndCount ([?x] @ ?abc @ [?n], None)
            = Inr (pre @ [m] @ post, col_count (last ([?x] @ ?abc @ [?n])))"
      and i: "ID m = 2"
      and p: "map Path (AffectedSymbols (AffectedPackage m))
                = filter (\<lambda>p. p \<noteq> []) (map (\<lambda>s. NullString (col_path s)) ?abc)"
      and l: "(\<forall>s \<in> set ?abc. NullString (col_path s) \<noteq> [])
                \<longrightarrow> length (AffectedSymbols (AffectedPackage m)) = length ?abc"
      by blast
    from l 5 have "length (AffectedSymbols (AffectedPackage m)) = 3" by simp
    with r [unfolded 6] i p [unfolded 7] show ?thesis
      by (intro exI [of _ pre] exI [of _ m] exI [of _ post]) simp
  qed
  have three: "\<exists>pre m post.
      scanVulnerabilityMatchesAndCount (([?x] @ ?abc) @ [?n] @ [], None) = Inr (pre @ [m] @ post, 3)
      \<and> ID m = 3
      \<and> map Path (AffectedSymbols (AffectedPackage m)) = []"
  proof -
    have 1: "[?n] \<noteq> []" by simp
    have 2: "\<forall>s \<in> set [?n]. col_id s = 3 \<and> NullString (col_package_name s) \<noteq> []"
      by (simp add: scenario_row_def NullString_def)
    have 3: "\<forall>s \<in> set (([?x] @ ?abc) @ []). col_id s \<noteq> 3"
      by (simp add: scenario_row_def)
    have 4: "\<forall>s \<in> set (([?x] @ ?abc) @ [?n] @ []). col_vulnerability_id s \<noteq> None"
      by (simp add: scenario_row_def)
    have 6: "col_count (last (([?x] @ ?abc) @ [?n] @ [])) = 3"
      by (simp add: scenario_row_def)
    have 7: "filter (\<lambda>p. p \<noteq> []) (map (\<lambda>s. NullString (col_path s)) [?n]) = []"
      by (simp add: scenario_row_def NullString_def)
    from fanout_reconstruction [OF 1 2 3 4] obtain pre m post where
      r: "scanVulnerabilityMatchesAndCount (([?x] @ ?abc) @ [?n] @ [], None)
            = Inr (pre @ [m] @ post, col_count (last (([?x] @ ?abc) @ [?n] @ [])))"
      and i: "ID m = 3"
      and p: "map Path (AffectedSymbols (AffectedPackage m))
                = filter (\<lambda>p. p \<noteq> []) (map (\<lambda>s. NullString (col_path s)) [?n])"
      by blast
    from r [unfolded 6] i p [unfolded 7] show ?thesis
      by (intro exI [of _ pre] exI [of _ m] exI [of _ post]) simp
  qed
  from whole two three show ?thesis by simp
qed

text \<open>
  C5. A row that carries the affected symbol \<^verbatim>\<open>bar/a.go\<close> with the symbol names
  \<^verbatim>\<open>Parse\<close> and \<^verbatim>\<open>Load\<close> is reconstructed with the path and with an empty list of symbol
  names: the names are lost.
\<close>

theorem symbol_names_lost:
  "scanMatchRow
     \<lparr>col_id = 1, col_upload_id = 10, col_vulnerability_id = Some 77,
      col_package_name = Some ''bar'', col_language = Some ''go'',
      col_namespace = Some ''github.com/foo'',
      col_version_constraint = Some [''>=1.0.0'', ''<1.5.0''],
      col_fixed = Some True, col_fixed_in = Some ''1.5.0'',
      col_path = Some ''bar/a.go'', col_symbols = Some [''Parse'', ''Load''], col_count = 1\<rparr>
   = Inr (\<lparr>ID = 1, UploadID = 10, VulnerabilityID = 77,
           AffectedPackage =
             \<lparr>PackageName = ''bar'', Language = ''go'', Namespace = ''github.com/foo'',
              VersionConstraint = [''>=1.0.0'', ''<1.5.0''], Fixed = True,
              FixedIn = Some ''1.5.0'',
              AffectedSymbols = [\<lparr>Path = ''bar/a.go'', Symbols = []\<rparr>]\<rparr>\<rparr>, 1)"
  by code_simp

text \<open>
  C9. In every object returned by the reconstruction, \<open>FixedIn\<close> is never the empty
  string; and when the object carries an affected package, it is the package of one of
  the match's rows, with \<open>FixedIn\<close> absent if that row's fixed-in column is the empty
  string (or NULL) and the literal column value otherwise.
\<close>

theorem fixedIn_normalised:
  assumes res: "scanVulnerabilityMatchesAndCount (rows, queryErr) = Inr (ms, totalCount)"
    and m: "m \<in> set ms"
  shows "FixedIn (AffectedPackage m) \<noteq> Some []
         \<and> (PackageName (AffectedPackage m) \<noteq> [] \<longrightarrow>
              (\<exists>s \<in> set rows. col_id s = ID m
                 \<and> col_package_name s = Some (PackageName (AffectedPackage m))
                 \<and> FixedIn (AffectedPackage m) =
                     (case col_fixed_in s of
                        None \<Rightarrow> None
                      | Some f \<Rightarrow> if f = [] then None else Some f)))"
proof -
  let ?P = "\<lambda>m. FixedIn (AffectedPackage m) \<noteq> Some []
         \<and> (PackageName (AffectedPackage m) \<noteq> [] \<longrightarrow>
              (\<exists>s \<in> set rows. col_id s = ID m
                 \<and> col_package_name s = Some (PackageName (AffectedPackage m))
                 \<and> FixedIn (AffectedPackage m) =
                     (case col_fixed_in s of
                        None \<Rightarrow> None
                      | Some f \<Rightarrow> if f = [] then None else Some f)))"
  note r = scanVulnerabilityMatchesAndCount_Inr [OF res]
  have base: "\<forall>x \<in> set (map (\<lambda>s. fst (projr (scanMatchRow s))) rows). ?P x"
  proof (clarsimp simp del: not_Some_eq split del: if_split)
    fix s assume s: "s \<in> set rows"
    with r(2) obtain x where x: "scanMatchRow s = Inr (x, col_count s)" by blast
    note p = scanMatchRow_package [OF x] and i = scanMatchRow_Inr [OF x]
    have 1: "FixedIn (AffectedPackage x) \<noteq> Some []"
      unfolding p by (simp add: zeroAffectedPackage_def)
    have 2: "\<exists>s \<in> set rows. col_id s = ID x
                 \<and> col_package_name s = Some (PackageName (AffectedPackage x))
                 \<and> FixedIn (AffectedPackage x) =
                     (case col_fixed_in s of
                        None \<Rightarrow> None
                      | Some f \<Rightarrow> if f = [] then None else Some f)"
      if "PackageName (AffectedPackage x) \<noteq> []"
    proof (intro bexI [of _ s] conjI)
      from that have n: "NullString (col_package_name s) \<noteq> []"
        unfolding p by (auto simp: zeroAffectedPackage_def split: if_splits)
      show "col_id s = ID x" using i by simp
      from n show "col_package_name s = Some (PackageName (AffectedPackage x))"
        unfolding p by (auto simp: NullString_def split: option.splits)
      from n show "FixedIn (AffectedPackage x) =
                     (case col_fixed_in s of
                        None \<Rightarrow> None
                      | Some f \<Rightarrow> if f = [] then None else Some f)"
        unfolding p by (auto simp: NullString_def split: option.splits)
    qed (rule s)
    from 1 2 x show "FixedIn (AffectedPackage (fst (projr (scanMatchRow s)))) \<noteq> Some []
         \<and> (PackageName (AffectedPackage (fst (projr (scanMatchRow s)))) \<noteq> [] \<longrightarrow>
              (\<exists>s' \<in> set rows. col_id s' = ID (fst (projr (scanMatchRow s)))
                 \<and> col_package_name s' = Some (PackageName (AffectedPackage (fst (projr (scanMatchRow s)))))
                 \<and> FixedIn (AffectedPackage (fst (projr (scanMatchRow s)))) =
                     (case col_fixed_in s' of
                        None \<Rightarrow> None
                      | Some f \<Rightarrow> if f = [] then None else Some f)))"
      by simp
  qed
  have "\<forall>x \<in> set (flattenMatches (map (\<lambda>s. fst (projr (scanMatchRow s))) rows)). ?P x"
    by (rule flattenMatches_invariant [where P = ?P, OF base]) auto
  with r(3) m show ?thesis by blast
qed

theorem fixedIn_normalised_witness:
  "scanVulnerabilityMatchesAndCount
     ([\<lparr>col_id = 1, col_upload_id = 10, col_vulnerability_id = Some 77,
        col_package_name = Some ''bar'', col_language = Some ''go'',
        col_namespace = Some [], col_version_constraint = Some [''<1.5.0''],
        col_fixed = Some False, col_fixed_in = Some [],
        col_path = None, col_symbols = None, col_count = 1\<rparr>], None)
     = Inr ([\<lparr>ID = 1, UploadID = 10, VulnerabilityID = 77,
              AffectedPackage =
                \<lparr>PackageName = ''bar'', Language = ''go'', Namespace = [],
                 VersionConstraint = [''<1.5.0''], Fixed = False, FixedIn = None,
                 AffectedSymbols = []\<rparr>\<rparr>], 1)
   \<and> FixedIn (AffectedPackage
        \<lparr>ID = 1, UploadID = 10, VulnerabilityID = 77,
         AffectedPackage =
           \<lparr>PackageName = ''bar'', Language = ''go'', Namespace = [],
            VersionConstraint = [''<1.5.0''], Fixed = False, FixedIn = None,
            AffectedSymbols = []\<rparr>\<rparr>) \<noteq> Some []
   \<and> PackageName (AffectedPackage
        \<lparr>ID = 1, UploadID = 10, VulnerabilityID = 77,
         AffectedPackage =
           \<lparr>PackageName = ''bar'', Language = ''go'', Namespace = [],
            VersionConstraint = [''<1.5.0''], Fixed = False, FixedIn = None,
            AffectedSymbols = []\<rparr>\<rparr>) \<noteq> []"
proof -
  let ?rows = "[\<lparr>col_id = 1, col_upload_id = 10, col_vulnerability_id = Some 77,
        col_package_name = Some ''bar'', col_language = Some ''go'',
        col_namespace = Some [], col_version_constraint = Some [''<1.5.0''],
        col_fixed = Some False, col_fixed_in = Some [],
        col_path = None, col_symbols = None, col_count = 1\<rparr>]"
  let ?m = "\<lparr>ID = 1, UploadID = 10, VulnerabilityID = 77,
         AffectedPackage =
           \<lparr>PackageName = ''bar'', Language = ''go'', Namespace = [],
            VersionConstraint = [''<1.5.0''], Fixed = False, FixedIn = None,
            AffectedSymbols = []\<rparr>\<rparr>"
  have res: "scanVulnerabilityMatchesAndCount (?rows, None) = Inr ([?m], 1)"
    by code_simp
  have m: "?m \<in> set [?m]" by simp
  from fixedIn_normalised [OF res m] res show ?thesis by simp
qed




subsection \<open>The page query\<close>

lemma limited_matches_Inr:
  assumes "0 \<le> limit" "0 \<le> offset"
  shows "limited_matches db limit offset =
           Inr (take (nat limit) (drop (nat offset)
             (sort_key (\<lambda>m. m_id (fst m))
                (map (\<lambda>m. (m, int (length (vulnerability_matches db))))
                   (vulnerability_matches db)))))"
  using assms by (simp add: limited_matches_def)

lemma page_members:
  assumes "p \<in> set (take k (drop j (sort_key f (map (\<lambda>m. (m, c)) ms))))"
  shows "fst p \<in> set ms \<and> snd p = c"
proof -
  from assms have "p \<in> set (sort_key f (map (\<lambda>m. (m, c)) ms))"
    by (meson in_set_dropD in_set_takeD)
  then show ?thesis by auto
qed

lemma page_not_empty:
  assumes "0 < k" "j < length ms"
  shows "take k (drop j (sort_key f (map (\<lambda>m. (m, c)) ms))) \<noteq> []"
proof -
  have "length (take k (drop j (sort_key f (map (\<lambda>m. (m, c)) ms)))) = min k (length ms - j)"
    by simp
  with assms have "0 < length (take k (drop j (sort_key f (map (\<lambda>m. (m, c)) ms))))"
    by simp
  then show ?thesis by (rule iffD1 [OF length_greater_0_conv])
qed

lemma left_join_vap_not_Nil: "left_join_vap db m \<noteq> []"
  by (simp add: left_join_vap_def split: list.splits)

lemma left_join_vas_not_Nil: "left_join_vas db vapo \<noteq> []"
  by (simp add: left_join_vas_def split: option.splits list.splits)

lemma left_join_vap_Some:
  assumes "\<exists>vap \<in> set (vulnerability_affected_packages db).
             vap_id vap = m_vulnerability_affected_package_id m"
    and "vapo \<in> set (left_join_vap db m)"
  shows "vapo \<noteq> None"
proof -
  from assms(1) have "filter (\<lambda>vap. vap_id vap = m_vulnerability_affected_package_id m)
                        (vulnerability_affected_packages db) \<noteq> []"
    by (auto simp: filter_empty_conv)
  with assms(2) show ?thesis
    by (auto simp: left_join_vap_def split: list.splits)
qed

lemma joined_rows_members:
  assumes "j \<in> set (joined_rows db ms)"
  shows "fst j \<in> set ms \<and> fst (snd j) \<in> set (left_join_vap db (fst (fst j)))"
  using assms by (auto simp: joined_rows_def)

lemma joined_rows_not_Nil:
  assumes "ms \<noteq> []"
  shows "joined_rows db ms \<noteq> []"
proof -
  from assms obtain m rest where ms: "ms = m # rest" by (cases ms) auto
  obtain vapo where v: "vapo \<in> set (left_join_vap db (fst m))"
    using left_join_vap_not_Nil [of db "fst m"] by (meson last_in_set)
  obtain vaso where s: "vaso \<in> set (left_join_vas db vapo)"
    using left_join_vas_not_Nil [of db vapo] by (meson last_in_set)
  from v s have "(m, vapo, vaso) \<in> set (joined_rows db ms)"
    by (auto simp: joined_rows_def ms)
  then show ?thesis by auto
qed

lemma select_row_columns:
  "col_count (select_row j) = snd (fst j)"
  "col_vulnerability_id (select_row j) = map_option vap_vulnerability_id (fst (snd j))"
  by (simp_all add: select_row_def split: prod.splits)

text \<open>
  C6. For a non-negative limit and offset that select a non-empty page, and a matches
  table whose rows reference existing affected packages (the foreign key of the schema),
  \<^verbatim>\<open>GetVulnerabilityMatches\<close> returns without error and its total count is the number of
  rows of the matches table, whatever the limit and the offset; every physical row of
  the query carries that same count.
\<close>

theorem totalCount_is_table_size:
  assumes limit: "0 < limit" and offset: "0 \<le> offset"
    and page: "offset < int (length (vulnerability_matches db))"
    and fk: "\<forall>m \<in> set (vulnerability_matches db).
               \<exists>vap \<in> set (vulnerability_affected_packages db).
                 vap_id vap = m_vulnerability_affected_package_id m"
  shows "(\<exists>ms. GetVulnerabilityMatches db limit offset =
                 Inr (ms, int (length (vulnerability_matches db))))
         \<and> (\<forall>row \<in> set (fst (getVulnerabilityMatchesQuery db limit offset)).
               col_count row = int (length (vulnerability_matches db)))"
proof -
  let ?N = "int (length (vulnerability_matches db))"
  let ?page = "take (nat limit) (drop (nat offset)
             (sort_key (\<lambda>m. m_id (fst m))
                (map (\<lambda>m. (m, ?N)) (vulnerability_matches db))))"
  let ?joined = "sort_key order_key (joined_rows db ?page)"
  let ?rows = "map select_row ?joined"
  have q: "getVulnerabilityMatchesQuery db limit offset = (?rows, None)"
    using limit offset by (simp add: getVulnerabilityMatchesQuery_def limited_matches_Inr)
  have "?page \<noteq> []"
    using limit offset page by (intro page_not_empty) auto
  then have "joined_rows db ?page \<noteq> []" by (rule joined_rows_not_Nil)
  then have "0 < length (joined_rows db ?page)" by simp
  then have "0 < length ?rows" by (simp only: length_map length_sort)
  then have ne: "?rows \<noteq> []" by (rule iffD1 [OF length_greater_0_conv])
  have member: "col_count row = ?N \<and> col_vulnerability_id row \<noteq> None"
    if "row \<in> set ?rows" for row
  proof -
    from that obtain j where j: "j \<in> set (joined_rows db ?page)" and row: "row = select_row j"
      by auto
    note jm = joined_rows_members [OF j]
    from jm have "fst j \<in> set ?page" ..
    then have p: "fst (fst j) \<in> set (vulnerability_matches db) \<and> snd (fst j) = ?N"
      by (rule page_members)
    with fk have "\<exists>vap \<in> set (vulnerability_affected_packages db).
             vap_id vap = m_vulnerability_affected_package_id (fst (fst j))" by blast
    from left_join_vap_Some [OF this] jm have "fst (snd j) \<noteq> None" by blast
    with p show ?thesis by (simp add: row select_row_columns)
  qed
  then have "\<forall>s \<in> set ?rows. col_vulnerability_id s \<noteq> None" by blast
  from scanVulnerabilityMatchesAndCount_total [OF this] ne
  have "scanVulnerabilityMatchesAndCount (?rows, None) =
          Inr (flattenMatches (map (\<lambda>s. fst (projr (scanMatchRow s))) ?rows), col_count (last ?rows))"
    by simp
  moreover have "col_count (last ?rows) = ?N"
    using member [of "last ?rows"] ne last_in_set by blast
  ultimately have "\<exists>ms. GetVulnerabilityMatches db limit offset = Inr (ms, ?N)"
    by (simp add: GetVulnerabilityMatches_def q)
  moreover have "\<forall>row \<in> set (fst (getVulnerabilityMatchesQuery db limit offset)). col_count row = ?N"
    unfolding q using member by simp
  ultimately show ?thesis by blast
qed

theorem totalCount_is_table_size_witness:
  "(\<exists>ms. GetVulnerabilityMatches
           (scenario_db\<lparr>vulnerability_matches :=
              [\<lparr>m_id = 1, m_upload_id = 10, m_vulnerability_affected_package_id = 5\<rparr>,
               \<lparr>m_id = 2, m_upload_id = 12, m_vulnerability_affected_package_id = 5\<rparr>,
               \<lparr>m_id = 3, m_upload_id = 13, m_vulnerability_affected_package_id = 5\<rparr>]\<rparr>) 2 1
         = Inr (ms, 3))
   \<and> (\<exists>ms. GetVulnerabilityMatches
           (scenario_db\<lparr>vulnerability_matches :=
              [\<lparr>m_id = 1, m_upload_id = 10, m_vulnerability_affected_package_id = 5\<rparr>,
               \<lparr>m_id = 2, m_upload_id = 12, m_vulnerability_affected_package_id = 5\<rparr>,
               \<lparr>m_id = 3, m_upload_id = 13, m_vulnerability_affected_package_id = 5\<rparr>]\<rparr>) 100 0
         = Inr (ms, 3))
   \<and> map col_count (fst (getVulnerabilityMatchesQuery
           (scenario_db\<lparr>vulnerability_matches :=
              [\<lparr>m_id = 1, m_upload_id = 10, m_vulnerability_affected_package_id = 5\<rparr>,
               \<lparr>m_id = 2, m_upload_id = 12, m_vulnerability_affected_package_id = 5\<rparr>,
               \<lparr>m_id = 3, m_upload_id = 13, m_vulnerability_affected_package_id = 5\<rparr>]\<rparr>) 2 1))
       = [3, 3, 3, 3]"
proof -
  let ?db = "scenario_db\<lparr>vulnerability_matches :=
              [\<lparr>m_id = 1, m_upload_id = 10, m_vulnerability_affected_package_id = 5\<rparr>,
               \<lparr>m_id = 2, m_upload_id = 12, m_vulnerability_affected_package_id = 5\<rparr>,
               \<lparr>m_id = 3, m_upload_id = 13, m_vulnerability_affected_package_id = 5\<rparr>]\<rparr>"
  have n: "int (length (vulnerability_matches ?db)) = 3" by simp
  have fk: "\<forall>m \<in> set (vulnerability_matches ?db).
              \<exists>vap \<in> set (vulnerability_affected_packages ?db).
                vap_id vap = m_vulnerability_affected_package_id m"
    by (simp add: scenario_db_def)
  have a: "(0::int) < 2" "(0::int) \<le> 1" "1 < int (length (vulnerability_matches ?db))"
    by simp_all
  have b: "(0::int) < 100" "(0::int) \<le> 0" "0 < int (length (vulnerability_matches ?db))"
    by simp_all
  have counts: "map col_count (fst (getVulnerabilityMatchesQuery ?db 2 1)) = [3, 3, 3, 3]"
    by code_simp
  from totalCount_is_table_size [OF a fk] totalCount_is_table_size [OF b fk] counts
  show ?thesis unfolding n by blast
qed

subsection \<open>Candidate generation\<close>

lemma like_match_percent:
  "like_match s (CHR ''%'' # q) \<longleftrightarrow> (\<exists>a b. s = a @ b \<and> like_match b q)"
proof (induction s)
  case Nil
  then show ?case by simp
next
  case (Cons c s)
  have "like_match (c # s) (CHR ''%'' # q) \<longleftrightarrow> like_match (c # s) q \<or> like_match s (CHR ''%'' # q)"
    by simp
  also have "\<dots> \<longleftrightarrow> like_match (c # s) q \<or> (\<exists>a b. s = a @ b \<and> like_match b q)"
    by (simp only: Cons.IH)
  also have "\<dots> \<longleftrightarrow> (\<exists>a b. c # s = a @ b \<and> like_match b q)"
    by (auto simp: Cons_eq_append_conv)
  finally show ?case .
qed

lemma like_match_plain:
  assumes "set p \<inter> {CHR ''%'', CHR ''_'', CHR 0x5C} = {}"
  shows "like_match s (p @ q) \<longleftrightarrow> (\<exists>b. s = p @ b \<and> like_match b q)"
  using assms
proof (induction p arbitrary: s)
  case Nil
  then show ?case by simp
next
  case (Cons c p)
  then have c: "c \<noteq> CHR ''%''" "c \<noteq> CHR ''_''" "c \<noteq> CHR 0x5C"
    and p: "set p \<inter> {CHR ''%'', CHR ''_'', CHR 0x5C} = {}"
    by auto
  show ?case
  proof (cases s)
    case Nil
    with c show ?thesis by simp
  next
    case (Cons d s')
    with c Cons.IH [OF p, of s'] show ?thesis by auto
  qed
qed

lemma join_condition_plain:
  assumes "set (vap_package_name vap) \<inter> {CHR ''%'', CHR ''_'', CHR 0x5C} = {}"
  shows "join_condition r vap \<longleftrightarrow> sublist (vap_package_name vap) (r_name r)"
proof -
  have all: "like_match b [CHR ''%'']" for b
    using like_match_percent [of b "[]"] by auto
  have "join_condition r vap \<longleftrightarrow>
          (\<exists>a b. r_name r = a @ b \<and> like_match b (vap_package_name vap @ [CHR ''%'']))"
    by (simp only: join_condition_def like_match_percent)
  also have "\<dots> \<longleftrightarrow> (\<exists>a b. r_name r = a @ b \<and> (\<exists>c. b = vap_package_name vap @ c))"
    by (simp only: like_match_plain [OF assms] all simp_thms)
  also have "\<dots> \<longleftrightarrow> sublist (vap_package_name vap) (r_name r)"
    by (auto simp: sublist_def)
  finally show ?thesis .
qed

lemma where_clause_eq:
  "where_clause r vap \<longleftrightarrow>
     (r_scheme r = ''gomod'' \<and> vap_language vap = ''go'')
     \<or> (r_scheme r = ''npm'' \<and> vap_language vap = ''Javascript'')"
  by (simp add: where_clause_def mappings_def schemes_def scipSchemeToVulnerabilityLanguage_def)

lemma scanMatchesQuery_candidates:
  "c \<in> set (scanMatchesQuery db) \<longleftrightarrow>
     (\<exists>vap \<in> set (vulnerability_affected_packages db). \<exists>r \<in> set (lsif_references db).
        join_condition r vap \<and> where_clause r vap
        \<and> c = \<lparr>c_dump_id = r_dump_id r, c_vap_id = vap_id vap, c_version = r_version r,
                 c_version_constraint = vap_version_constraint vap\<rparr>)"
  by (auto simp: scanMatchesQuery_def)

text \<open>
  C8. The affected package \<^verbatim>\<open>go_utils\<close> and the reference \<^verbatim>\<open>github.com/acme/go-utils\<close>:
  the name of the reference does not contain the package name, and the query still
  returns the pair as a candidate, because the underscore of the package name is a
  wildcard of the \<^verbatim>\<open>LIKE\<close> pattern.
\<close>

theorem like_wildcard_candidate:
  "scanMatchesQuery
     \<lparr>lsif_references =
        [\<lparr>r_dump_id = 10, r_scheme = ''gomod'', r_name = ''github.com/acme/go-utils'',
          r_version = ''1.4.0''\<rparr>],
      vulnerability_affected_packages =
        [\<lparr>vap_id = 5, vap_vulnerability_id = 77, vap_package_name = ''go_utils'',
          vap_language = ''go'', vap_namespace = [],
          vap_version_constraint = [''<1.5.0''], vap_fixed = False, vap_fixed_in = None\<rparr>],
      vulnerability_affected_symbols = [],
      vulnerability_matches = [],
      vulnerability_matches_id_seq = 0\<rparr>
   = [\<lparr>c_dump_id = 10, c_vap_id = 5, c_version = ''1.4.0'',
       c_version_constraint = [''<1.5.0'']\<rparr>]
   \<and> \<not> sublist ''go_utils'' ''github.com/acme/go-utils''"
  by code_simp

end
